theory Spec2Isabelle
  imports Main "HOL-Library.Sublist" "HOL-Library.Multiset" "HOL-Library.Word"
begin

section \<open>Go strings\<close>

text \<open>
  A Go \<open>string\<close> is a sequence of bytes; it is modelled as a \<open>char list\<close>, one \<open>char\<close> per
  byte. The functions of package \<open>strings\<close> that \<open>main.go\<close> calls are written out on bytes.
  Where Go works on runes (\<open>TrimSpace\<close>, \<open>ToLower\<close>, the regular expressions) the UTF-8
  encodings of the runes concerned are spelled out.
\<close>

abbreviation (input) LF :: char where "LF \<equiv> CHR 0x0A"
abbreviation (input) CR :: char where "CR \<equiv> CHR 0x0D"

text \<open>\<open>strings.HasPrefix(s, p)\<close> is \<^const>\<open>prefix\<close> \<open>p s\<close>.\<close>

text \<open>\<open>strings.Contains(s, sub)\<close>: some position of \<open>s\<close> starts an occurrence of \<open>sub\<close>.\<close>

fun Contains :: "string \<Rightarrow> string \<Rightarrow> bool" where
  "Contains [] sub = (sub = [])"
| "Contains (c # s) sub = (prefix sub (c # s) \<or> Contains s sub)"

text \<open>
  \<open>unicode.IsSpace\<close> holds of U+0009 to U+000D, U+0020, U+0085, U+00A0, U+1680, U+2000 to
  U+200A, U+2028, U+2029, U+202F, U+205F and U+3000. \<open>spaceRunes\<close> lists their UTF-8
  encodings. An encoding that is a prefix (suffix) of a string is what
  \<open>utf8.DecodeRuneInString\<close> (\<open>DecodeLastRuneInString\<close>) reads there, so \<open>strings.TrimSpace\<close>
  removes these encodings from both ends for as long as one is found.
\<close>

definition spaceRunes :: "string list" where
  "spaceRunes =
     [[CHR 0x09], [CHR 0x0A], [CHR 0x0B], [CHR 0x0C], [CHR 0x0D], [CHR 0x20],
      [CHR 0xC2, CHR 0x85], [CHR 0xC2, CHR 0xA0],
      [CHR 0xE1, CHR 0x9A, CHR 0x80],
      [CHR 0xE2, CHR 0x80, CHR 0x80], [CHR 0xE2, CHR 0x80, CHR 0x81],
      [CHR 0xE2, CHR 0x80, CHR 0x82], [CHR 0xE2, CHR 0x80, CHR 0x83],
      [CHR 0xE2, CHR 0x80, CHR 0x84], [CHR 0xE2, CHR 0x80, CHR 0x85],
      [CHR 0xE2, CHR 0x80, CHR 0x86], [CHR 0xE2, CHR 0x80, CHR 0x87],
      [CHR 0xE2, CHR 0x80, CHR 0x88], [CHR 0xE2, CHR 0x80, CHR 0x89],
      [CHR 0xE2, CHR 0x80, CHR 0x8A],
      [CHR 0xE2, CHR 0x80, CHR 0xA8], [CHR 0xE2, CHR 0x80, CHR 0xA9],
      [CHR 0xE2, CHR 0x80, CHR 0xAF], [CHR 0xE2, CHR 0x81, CHR 0x9F],
      [CHR 0xE3, CHR 0x80, CHR 0x80]]"

text \<open>The number of bytes of the white-space rune at the start of \<open>s\<close>, 0 when there is none.\<close>

definition spaceLen :: "string list \<Rightarrow> string \<Rightarrow> nat" where
  "spaceLen encs s = (case find (\<lambda>e. prefix e s) encs of None \<Rightarrow> 0 | Some e \<Rightarrow> length e)"

text \<open>
  \<open>trimLeft\<close> walks over the leading white space. The first argument is the number of bytes
  of the current rune still to be dropped, so the recursion is on the string.
\<close>

fun trimLeft :: "string list \<Rightarrow> nat \<Rightarrow> string \<Rightarrow> string" where
  "trimLeft encs k [] = []"
| "trimLeft encs (Suc k) (c # s) = trimLeft encs k s"
| "trimLeft encs 0 (c # s) =
     (case spaceLen encs (c # s) of 0 \<Rightarrow> c # s | Suc n \<Rightarrow> trimLeft encs n s)"

definition TrimSpace :: "string \<Rightarrow> string" where
  "TrimSpace s = rev (trimLeft (map rev spaceRunes) 0 (rev (trimLeft spaceRunes 0 s)))"

text \<open>
  \<open>strings.ToLower\<close>, as far as a search for ASCII text can tell. The letters \<open>A\<close> to \<open>Z\<close>
  become \<open>a\<close> to \<open>z\<close>. Two runes beyond ASCII have an ASCII lower case: U+212A (the Kelvin
  sign, bytes E2 84 AA) becomes \<open>k\<close> and U+0130 (bytes C4 B0) becomes \<open>i\<close>. Every other rune
  beyond ASCII, and every byte that is not valid UTF-8, becomes bytes beyond ASCII again;
  the model leaves such bytes as they are.
\<close>

definition lowerByte :: "char \<Rightarrow> char" where
  "lowerByte c =
     (case map_of (zip ''ABCDEFGHIJKLMNOPQRSTUVWXYZ'' ''abcdefghijklmnopqrstuvwxyz'') c of
        Some l \<Rightarrow> l
      | None \<Rightarrow> c)"

fun ToLower :: "string \<Rightarrow> string" where
  "ToLower (a # b # c # s) =
     (if a = CHR 0xE2 \<and> b = CHR 0x84 \<and> c = CHR 0xAA then CHR ''k'' # ToLower s
      else if a = CHR 0xC4 \<and> b = CHR 0xB0 then CHR ''i'' # ToLower (c # s)
      else lowerByte a # ToLower (b # c # s))"
| "ToLower [a, b] =
     (if a = CHR 0xC4 \<and> b = CHR 0xB0 then [CHR ''i''] else [lowerByte a, lowerByte b])"
| "ToLower [a] = [lowerByte a]"
| "ToLower [] = []"

text \<open>\<open>strings.Split(s, "\n")[0]\<close>: the text before the first line feed.\<close>

definition firstLine :: "string \<Rightarrow> string" where
  "firstLine s = takeWhile (\<lambda>c. c \<noteq> LF) s"

text \<open>
  \<open>strings.SplitN(s, sep, 2)\<close> has a second part when \<open>sep\<close> occurs in \<open>s\<close>: the text after
  the first occurrence.
\<close>

fun afterFirst :: "string \<Rightarrow> string \<Rightarrow> string option" where
  "afterFirst sep [] = (if sep = [] then Some [] else None)"
| "afterFirst sep (c # s) =
     (if prefix sep (c # s) then Some (drop (length sep) (c # s)) else afterFirst sep s)"

text \<open>
  \<open>strings.ReplaceAll(s, old, new)\<close> for a non-empty \<open>old\<close>, the only use \<open>main.go\<close> makes of
  it: the occurrences of \<open>old\<close> are found from left to right, the search resuming after
  each one.
\<close>

fun ReplaceAll :: "string \<Rightarrow> string \<Rightarrow> string \<Rightarrow> string" where
  "ReplaceAll [] (p # old) new = []"
| "ReplaceAll (c # s) (p # old) new =
     (if prefix (p # old) (c # s) then new @ ReplaceAll (drop (length old) s) (p # old) new
      else c # ReplaceAll s (p # old) new)"

text \<open>\<open>strconv.FormatUint(n, 10)\<close>, and \<open>%d\<close> of a signed integer.\<close>

definition digit :: "nat \<Rightarrow> char" where
  "digit n = ''0123456789'' ! n"

fun FormatUint :: "nat \<Rightarrow> string" where
  "FormatUint n = (if n < 10 then [digit n] else FormatUint (n div 10) @ [digit (n mod 10)])"

declare FormatUint.simps [simp del]

definition FormatInt :: "int \<Rightarrow> string" where
  "FormatInt i = (if i < 0 then CHR ''-'' # FormatUint (nat (- i)) else FormatUint (nat i))"

section \<open>The commit pattern\<close>

text \<open>
  \<^verbatim>\<open>^(?P<type>feat|fix|docs|style|refactor|perf|test|build|ci|chore|revert)\<close>
  \<^verbatim>\<open>(?:\((?P<scope>[^()\r\n]*)\)|\()?(?P<breaking>!)?: (?P<subject>.*)$\<close>

  The matcher below follows the pattern from left to right and tries the alternatives in
  the order Go's leftmost-first matching prefers them: the types as listed; the group with
  a closed scope, then the lone \<open>(\<close>, then no group; the \<open>!\<close> present, then absent. Without the
  flags \<open>s\<close> and \<open>m\<close>, \<open>.\<close> matches every character but the line feed, and \<open>^\<close> and \<open>$\<close> match
  only at the two ends of the text. A result holds the submatches that
  \<open>FindStringSubmatch\<close> returns, the empty string for a group that took no part.
\<close>

record submatch =
  mtype :: string
  mscope :: string
  mbreaking :: string
  msubject :: string

definition commitTypes :: "string list" where
  "commitTypes = [''feat'', ''fix'', ''docs'', ''style'', ''refactor'', ''perf'', ''test'',
                  ''build'', ''ci'', ''chore'', ''revert'']"

text \<open>\<^verbatim>\<open>(?P<subject>.*)$\<close>: the rest of the text, which has no line feed.\<close>

definition matchSubject :: "string \<Rightarrow> string option" where
  "matchSubject s = (if LF \<in> set s then None else Some s)"

text \<open>\<^verbatim>\<open>: \<close> and the subject.\<close>

definition matchColon :: "string \<Rightarrow> string option" where
  "matchColon s = (if prefix '': '' s then matchSubject (drop 2 s) else None)"

text \<open>\<^verbatim>\<open>(?P<breaking>!)?\<close> and what follows: the \<open>!\<close> is taken when that leads to a match.\<close>

definition matchBreaking :: "string \<Rightarrow> (string \<times> string) option" where
  "matchBreaking s =
     (case (if prefix ''!'' s then matchColon (drop 1 s) else None) of
        Some subj \<Rightarrow> Some (''!'', subj)
      | None \<Rightarrow> (case matchColon s of Some subj \<Rightarrow> Some ('''', subj) | None \<Rightarrow> None))"

definition scopeChar :: "char \<Rightarrow> bool" where
  "scopeChar c = (c \<noteq> CHR ''('' \<and> c \<noteq> CHR '')'' \<and> c \<noteq> CR \<and> c \<noteq> LF)"

text \<open>
  \<^verbatim>\<open>\((?P<scope>[^()\r\n]*)\)\<close> and what follows. The star is greedy; a shorter run of scope
  characters is followed by a scope character, never by \<open>)\<close>, so only the longest run can
  match.
\<close>

definition matchClosedScope :: "string \<Rightarrow> (string \<times> string \<times> string) option" where
  "matchClosedScope s =
     (if prefix ''('' s then
        (let body = takeWhile scopeChar (drop 1 s); rest = dropWhile scopeChar (drop 1 s)
         in if prefix '')'' rest then
              (case matchBreaking (drop 1 rest) of
                 Some (b, subj) \<Rightarrow> Some (body, b, subj)
               | None \<Rightarrow> None)
            else None)
      else None)"

text \<open>\<^verbatim>\<open>(?:\((?P<scope>[^()\r\n]*)\)|\()?\<close> and what follows.\<close>

definition matchScope :: "string \<Rightarrow> (string \<times> string \<times> string) option" where
  "matchScope s =
     (case matchClosedScope s of
        Some r \<Rightarrow> Some r
      | None \<Rightarrow>
         (case (if prefix ''('' s then matchBreaking (drop 1 s) else None) of
            Some (b, subj) \<Rightarrow> Some ('''', b, subj)
          | None \<Rightarrow>
             (case matchBreaking s of
                Some (b, subj) \<Rightarrow> Some ('''', b, subj)
              | None \<Rightarrow> None)))"

fun matchTypes :: "string list \<Rightarrow> string \<Rightarrow> submatch option" where
  "matchTypes [] msg = None"
| "matchTypes (t # ts) msg =
     (case (if prefix t msg then matchScope (drop (length t) msg) else None) of
        Some (sc, b, subj) \<Rightarrow>
          Some \<lparr>mtype = t, mscope = sc, mbreaking = b, msubject = subj\<rparr>
      | None \<Rightarrow> matchTypes ts msg)"

text \<open>\<open>commitPattern.FindStringSubmatch(msg)\<close>; \<open>None\<close> is Go's \<open>nil\<close> slice.\<close>

definition commitPattern :: "string \<Rightarrow> submatch option" where
  "commitPattern msg = matchTypes commitTypes msg"

section \<open>validateCommitMessage\<close>

definition formatError :: "string \<Rightarrow> string" where
  "formatError message =
     [LF] @ ''Invalid commit message format: '' @ [CHR 0x22] @ TrimSpace message @ [CHR 0x22]
     @ [LF, LF] @ ''Please follow the Conventional Commits specification:''
     @ [LF] @ ''<type>[optional scope]: <description>''
     @ [LF, LF]
     @ ''Available types: feat, fix, docs, style, refactor, perf, test, build, ci, chore, revert''
     @ [LF, LF] @ ''Example: feat(auth): add login functionality''"

definition validateCommitMessage :: "string \<Rightarrow> bool \<times> string" where
  "validateCommitMessage message =
     (if prefix ''Merge '' message then (True, [])
      else if commitPattern message = None then (False, formatError message)
      else (True, []))"

section \<open>determineBumpType\<close>

text \<open>
  The loop of \<open>determineBumpType\<close> with its variable \<open>bumpType\<close> as the first argument. The
  function's second result, the error, is \<open>nil\<close> on every path and is left out.
\<close>

fun bumpLoop :: "string \<Rightarrow> string list \<Rightarrow> string" where
  "bumpLoop bumpType [] = bumpType"
| "bumpLoop bumpType (m # ms) =
     (let msg = TrimSpace m in
      if msg = [] \<or> prefix ''Merge '' msg then bumpLoop bumpType ms
      else
        (case commitPattern msg of
           None \<Rightarrow> bumpLoop bumpType ms
         | Some matches \<Rightarrow>
            (let commitType = mtype matches;
                 isBreaking = (mbreaking matches \<noteq> [] \<or> Contains msg ''BREAKING CHANGE:'')
             in if isBreaking then ''major''
                else if commitType = ''feat'' then
                  bumpLoop (if bumpType \<noteq> ''major'' then ''minor'' else bumpType) ms
                else if commitType = ''fix'' then
                  bumpLoop (if bumpType \<noteq> ''major'' \<and> bumpType \<noteq> ''minor''
                            then ''patch'' else bumpType) ms
                else bumpLoop bumpType ms)))"

definition determineBumpType :: "string list \<Rightarrow> string" where
  "determineBumpType commitMsgs = bumpLoop ''none'' commitMsgs"

text \<open>
  What the loop does with one message, named for the statements below: \<open>Skip\<close> for the two
  \<open>continue\<close> statements, \<open>Breaking\<close> for the early return, \<open>Feat\<close> and \<open>Fix\<close> for the two
  assignments, \<open>Other\<close> for a recognised message of any other type.
\<close>

datatype kind = Skip | Breaking | Feat | Fix | Other

definition classify :: "string \<Rightarrow> kind" where
  "classify m =
     (let msg = TrimSpace m in
      if msg = [] \<or> prefix ''Merge '' msg then Skip
      else
        (case commitPattern msg of
           None \<Rightarrow> Skip
         | Some matches \<Rightarrow>
            if mbreaking matches \<noteq> [] \<or> Contains msg ''BREAKING CHANGE:'' then Breaking
            else if mtype matches = ''feat'' then Feat
            else if mtype matches = ''fix'' then Fix
            else Other))"

section \<open>generateReleaseNotes\<close>

text \<open>\<open>shouldSkipCI\<close>: the loop over \<open>skipPatterns\<close> returns at the first pattern found.\<close>

definition skipPatterns :: "string list" where
  "skipPatterns = [''[skip-ci]'', ''[ci skip]'', ''skip-checks: true'']"

fun containsAny :: "string \<Rightarrow> string list \<Rightarrow> bool" where
  "containsAny s [] = False"
| "containsAny s (pattern # patterns) =
     (if Contains s pattern then True else containsAny s patterns)"

definition shouldSkipCI :: "string \<Rightarrow> bool" where
  "shouldSkipCI commitMsg = containsAny (ToLower commitMsg) skipPatterns"

record categories =
  breakingChanges :: "string list"
  features :: "string list"
  bugFixes :: "string list"
  otherChanges :: "string list"

text \<open>The entry of a breaking commit, with the text after the first marker when there is one.\<close>

definition breakingMsg :: "string \<Rightarrow> string \<Rightarrow> string" where
  "breakingMsg msg commitSubject =
     ''- **BREAKING CHANGE:** '' @ commitSubject @
     (if Contains msg ''BREAKING CHANGE:'' then
        (case afterFirst ''BREAKING CHANGE:'' msg of
           Some rest \<Rightarrow> [LF] @ ''  '' @ TrimSpace rest
         | None \<Rightarrow> [])
      else [])"

text \<open>The body of the categorising loop, for one message and the four slices so far.\<close>

definition categorizeOne :: "categories \<Rightarrow> string \<Rightarrow> categories" where
  "categorizeOne cs msg =
     (if shouldSkipCI msg \<or> prefix ''Merge '' msg then cs
      else
        (case commitPattern msg of
           None \<Rightarrow> cs\<lparr>otherChanges := otherChanges cs @ [firstLine msg]\<rparr>
         | Some matches \<Rightarrow>
            (let commitType = mtype matches;
                 commitSubject = msubject matches;
                 isBreaking = (mbreaking matches \<noteq> [] \<or> Contains msg ''BREAKING CHANGE:'')
             in if isBreaking then
                  cs\<lparr>breakingChanges := breakingChanges cs @ [breakingMsg msg commitSubject]\<rparr>
                else if commitType = ''feat'' then
                  cs\<lparr>features := features cs @ [''- **feat:** '' @ commitSubject]\<rparr>
                else if commitType = ''fix'' then
                  cs\<lparr>bugFixes := bugFixes cs @ [''- **fix:** '' @ commitSubject]\<rparr>
                else if commitType \<noteq> ''docs'' \<and> commitType \<noteq> ''style''
                        \<and> commitType \<noteq> ''test'' \<and> commitType \<noteq> ''chore'' then
                  cs\<lparr>otherChanges := otherChanges cs
                        @ [''- **'' @ commitType @ '':** '' @ commitSubject]\<rparr>
                else cs)))"

fun categorizeLoop :: "categories \<Rightarrow> string list \<Rightarrow> categories" where
  "categorizeLoop cs [] = cs"
| "categorizeLoop cs (msg # msgs) = categorizeLoop (categorizeOne cs msg) msgs"

definition categorize :: "string list \<Rightarrow> categories" where
  "categorize commitMsgs =
     categorizeLoop \<lparr>breakingChanges = [], features = [], bugFixes = [], otherChanges = []\<rparr>
       commitMsgs"

text \<open>
  The \<open>strings.Builder\<close> is the text written so far; \<open>WriteString\<close> appends. Each of the four
  blocks that follow the header writes nothing for an empty slice, and otherwise a title,
  one line for each entry, and an empty line.
\<close>

fun writeEntries :: "string \<Rightarrow> string list \<Rightarrow> string" where
  "writeEntries sb [] = sb"
| "writeEntries sb (entry # entries) = writeEntries (sb @ entry @ [LF]) entries"

definition writeSection :: "string \<Rightarrow> string list \<Rightarrow> string \<Rightarrow> string" where
  "writeSection title entries sb =
     (if length entries > 0
      then writeEntries (sb @ ''### '' @ title @ [LF, LF]) entries @ [LF]
      else sb)"

text \<open>\<open>today\<close> is \<open>time.Now().Format("2006-01-02")\<close>.\<close>

definition newChangelogContent :: "string \<Rightarrow> string \<Rightarrow> categories \<Rightarrow> string" where
  "newChangelogContent newTagForHeader today cs =
     (let sb0 = ''## '' @ newTagForHeader @ '' ('' @ today @ '')'' @ [LF, LF];
          sb1 = writeSection ''BREAKING CHANGES'' (breakingChanges cs) sb0;
          sb2 = writeSection ''Features'' (features cs) sb1;
          sb3 = writeSection ''Bug Fixes'' (bugFixes cs) sb2;
          sb4 = writeSection ''Other Changes'' (otherChanges cs) sb3
      in sb4)"

text \<open>
  The collaborators of \<open>generateReleaseNotes\<close> are arguments: the result of
  \<open>getCommitMessagesBetweenRefs\<close>, the date, the changelog file as found, and whether the
  write fails. The result is the error, or the content written to the file.
\<close>

datatype notesError = CommitMessagesFailed string | ReadFailed string | WriteFailed string

datatype changelogFile = Absent | Present string | Unreadable string

definition generateReleaseNotes ::
  "(string + string list) \<Rightarrow> string \<Rightarrow> string \<Rightarrow> changelogFile \<Rightarrow> string option
     \<Rightarrow> notesError + string" where
  "generateReleaseNotes gitLog newTagForHeader today file writeError =
     (case gitLog of
        Inl err \<Rightarrow> Inl (CommitMessagesFailed err)
      | Inr commitMsgs \<Rightarrow>
         (let new = newChangelogContent newTagForHeader today (categorize commitMsgs) in
          case file of
            Unreadable err \<Rightarrow> Inl (ReadFailed err)
          | Absent \<Rightarrow>
             (case writeError of Some err \<Rightarrow> Inl (WriteFailed err) | None \<Rightarrow> Inr new)
          | Present existingContent \<Rightarrow>
             (case writeError of
                Some err \<Rightarrow> Inl (WriteFailed err)
              | None \<Rightarrow> Inr (new @ existingContent))))"

text \<open>
  The one flag \<open>main\<close> derives from the call: \<open>changelogGenerated\<close> is set when the changelog
  was asked for, the run is neither a pre-release nor a dry run, and the call returned no
  error.
\<close>

definition changelogGenerated :: "bool \<Rightarrow> bool \<Rightarrow> bool \<Rightarrow> notesError + string \<Rightarrow> bool" where
  "changelogGenerated outputChangelogEnabled preRelease dryRun result =
     (outputChangelogEnabled \<and> \<not> preRelease \<and> \<not> dryRun
      \<and> (case result of Inl err \<Rightarrow> False | Inr content \<Rightarrow> True))"

section \<open>Versions\<close>

text \<open>
  \<open>semver.Version\<close> of \<open>github.com/Masterminds/semver/v3\<close>, a library that \<open>main.go\<close> imports.
  The three numbers are \<open>uint64\<close>. The methods \<open>IncMajor\<close>, \<open>IncMinor\<close>, \<open>IncPatch\<close>,
  \<open>SetPrerelease\<close> and \<open>String\<close> are written as the library has them; in particular
  \<open>IncPatch\<close> of a version that carries a prerelease removes the prerelease and keeps the
  patch number. The field \<open>original\<close>, which none of the calls below reads, is left out.

  Two parts of the library are arguments of the functions below. \<open>NewVersion\<close> is the
  parser, \<open>None\<close> for an error. \<open>validatePrerelease\<close> is the check inside \<open>SetPrerelease\<close>,
  true when the prerelease text is accepted. Two parses are written out instead: of
  \<open>0.0.0\<close>, and of three numbers just printed with \<open>%d.%d.%d\<close>, which give those numbers
  with no prerelease and no metadata.
\<close>

record Version =
  major :: "64 word"
  minor :: "64 word"
  patch :: "64 word"
  pre :: string
  metadata :: string

definition IncMajor :: "Version \<Rightarrow> Version" where
  "IncMajor v = v\<lparr>metadata := [], pre := [], patch := 0, minor := 0, major := major v + 1\<rparr>"

definition IncMinor :: "Version \<Rightarrow> Version" where
  "IncMinor v = v\<lparr>metadata := [], pre := [], patch := 0, minor := minor v + 1\<rparr>"

definition IncPatch :: "Version \<Rightarrow> Version" where
  "IncPatch v =
     (if pre v \<noteq> [] then v\<lparr>metadata := [], pre := []\<rparr>
      else v\<lparr>metadata := [], pre := [], patch := patch v + 1\<rparr>)"

definition SetPrerelease :: "(string \<Rightarrow> bool) \<Rightarrow> Version \<Rightarrow> string \<Rightarrow> Version" where
  "SetPrerelease validatePrerelease v p =
     (if length p > 0 \<and> \<not> validatePrerelease p then v else v\<lparr>pre := p\<rparr>)"

definition String :: "Version \<Rightarrow> string" where
  "String v =
     FormatUint (unat (major v)) @ ''.'' @ FormatUint (unat (minor v)) @ ''.''
     @ FormatUint (unat (patch v))
     @ (if pre v \<noteq> [] then ''-'' @ pre v else [])
     @ (if metadata v \<noteq> [] then ''+'' @ metadata v else [])"

definition zeroVersion :: Version where
  "zeroVersion = \<lparr>major = 0, minor = 0, patch = 0, pre = [], metadata = []\<rparr>"

definition TrimPrefix :: "string \<Rightarrow> string \<Rightarrow> string" where
  "TrimPrefix s p = (if prefix p s then drop (length p) s else s)"

section \<open>calculateNewVersion\<close>

text \<open>
  \<^verbatim>\<open>[^a-zA-Z0-9-]\<close> matches one rune. \<open>runeLen\<close> is the number of bytes that
  \<open>utf8.DecodeRuneInString\<close> reads at the start of a non-empty string: the length of a
  well-formed UTF-8 sequence, and 1 for a byte that starts none. \<open>ReplaceAllString\<close> puts
  one \<open>-\<close> for each rune outside the class.
\<close>

definition inRange :: "nat \<Rightarrow> nat \<Rightarrow> char \<Rightarrow> bool" where
  "inRange lo hi c = (lo \<le> of_char c \<and> (of_char c :: nat) \<le> hi)"

fun continuation :: "nat \<Rightarrow> string \<Rightarrow> bool" where
  "continuation 0 s = True"
| "continuation (Suc n) [] = False"
| "continuation (Suc n) (c # s) = (inRange 0x80 0xBF c \<and> continuation n s)"

definition sequence :: "nat \<Rightarrow> nat \<Rightarrow> nat \<Rightarrow> string \<Rightarrow> nat" where
  "sequence n lo hi s =
     (case s of
        [] \<Rightarrow> 1
      | b # r \<Rightarrow> if inRange lo hi b \<and> continuation (n - 2) r then n else 1)"

fun runeLen :: "string \<Rightarrow> nat" where
  "runeLen [] = 0"
| "runeLen (a # s) =
     (if inRange 0xC2 0xDF a then sequence 2 0x80 0xBF s
      else if inRange 0xE0 0xE0 a then sequence 3 0xA0 0xBF s
      else if inRange 0xE1 0xEC a \<or> inRange 0xEE 0xEF a then sequence 3 0x80 0xBF s
      else if inRange 0xED 0xED a then sequence 3 0x80 0x9F s
      else if inRange 0xF0 0xF0 a then sequence 4 0x90 0xBF s
      else if inRange 0xF1 0xF3 a then sequence 4 0x80 0xBF s
      else if inRange 0xF4 0xF4 a then sequence 4 0x80 0x8F s
      else 1)"

definition branchChar :: "char \<Rightarrow> bool" where
  "branchChar c =
     (c \<in> set ''abcdefghijklmnopqrstuvwxyzABCDEFGHIJKLMNOPQRSTUVWXYZ0123456789-'')"

fun sanitize :: "nat \<Rightarrow> string \<Rightarrow> string" where
  "sanitize k [] = []"
| "sanitize (Suc k) (c # s) = sanitize k s"
| "sanitize 0 (c # s) =
     (if branchChar c then c # sanitize 0 s
      else CHR ''-'' # sanitize (runeLen (c # s) - 1) s)"

definition sanitizedBranch :: "string \<Rightarrow> string" where
  "sanitizedBranch branch = sanitize 0 branch"

text \<open>
  \<open>branchPreReleaseRegex\<close> is \<^verbatim>\<open>v\d+\.\d+\.\d+-\<close>, the sanitized branch quoted, and
  \<^verbatim>\<open>\.(\d+)$\<close>. It is anchored at the end only, so the matcher reads the tag from its
  end: the digits of the counter, a dot, the branch, a hyphen, and three runs of digits
  separated by dots and preceded by \<open>v\<close>. Each run of digits is followed in the pattern
  by a character that is no digit, so a run is always the longest one. The result is the
  submatch of the group. \<open>QuoteMeta\<close> changes nothing in a sanitized branch.
\<close>

definition isDigit :: "char \<Rightarrow> bool" where
  "isDigit c = (c \<in> set ''0123456789'')"

definition digitRun :: "string \<Rightarrow> (string \<times> string) option" where
  "digitRun s =
     (if takeWhile isDigit s = [] then None
      else Some (takeWhile isDigit s, dropWhile isDigit s))"

definition literal :: "string \<Rightarrow> string \<Rightarrow> string option" where
  "literal p s = (if prefix p s then Some (drop (length p) s) else None)"

definition branchPreReleaseRegex :: "string \<Rightarrow> string \<Rightarrow> string option" where
  "branchPreReleaseRegex sb tag =
     Option.bind (digitRun (rev tag)) (\<lambda>(num, r1).
     Option.bind (literal ''.'' r1) (\<lambda>r2.
     Option.bind (literal (rev sb) r2) (\<lambda>r3.
     Option.bind (literal ''-'' r3) (\<lambda>r4.
     Option.bind (digitRun r4) (\<lambda>(d3, r5).
     Option.bind (literal ''.'' r5) (\<lambda>r6.
     Option.bind (digitRun r6) (\<lambda>(d2, r7).
     Option.bind (literal ''.'' r7) (\<lambda>r8.
     Option.bind (digitRun r8) (\<lambda>(d1, r9).
     Option.bind (literal ''v'' r9) (\<lambda>r10. Some (rev num)))))))))))"

text \<open>
  \<open>strconv.Atoi\<close> of a run of digits; \<open>int\<close> has 64 bits, and a number beyond its range is
  an error. \<open>wrap64\<close> is the wrap-around of \<open>int\<close> arithmetic.
\<close>

definition decimal :: "string \<Rightarrow> int" where
  "decimal ds = foldl (\<lambda>n c. 10 * n + (of_char c - 48)) 0 ds"

definition Atoi :: "string \<Rightarrow> int option" where
  "Atoi ds = (if decimal ds \<le> 2 ^ 63 - 1 then Some (decimal ds) else None)"

definition wrap64 :: "int \<Rightarrow> int" where
  "wrap64 i = (i + 2 ^ 63) mod 2 ^ 64 - 2 ^ 63"

text \<open>
  The loop over the tags, with \<open>highestBranchPreRelease\<close> (\<open>None\<close> for \<open>nil\<close>) and
  \<open>highestBranchPreReleaseNum\<close> as the state. A tag is a field of the output of
  \<open>git tag -l --sort=-v:refname\<close>.
\<close>

fun scanTags ::
  "(string \<Rightarrow> Version option) \<Rightarrow> string \<Rightarrow> Version option \<times> int \<Rightarrow> string list
     \<Rightarrow> Version option \<times> int" where
  "scanTags NewVersion sb st [] = st"
| "scanTags NewVersion sb (highest, highestNum) (tag # tags) =
     (case branchPreReleaseRegex sb tag of
        None \<Rightarrow> scanTags NewVersion sb (highest, highestNum) tags
      | Some digits \<Rightarrow>
         (case Atoi digits of
            None \<Rightarrow> scanTags NewVersion sb (highest, highestNum) tags
          | Some num \<Rightarrow>
             (case NewVersion (TrimPrefix tag ''v'') of
                Some v \<Rightarrow>
                  if num > highestNum then scanTags NewVersion sb (Some v, num) tags
                  else scanTags NewVersion sb (highest, highestNum) tags
              | None \<Rightarrow> scanTags NewVersion sb (highest, highestNum) tags)))"

text \<open>
  \<open>getCurrentReleaseVersion\<close>: the first tag, in the order of
  \<open>git tag -l "v*" --sort=-v:refname\<close>, that parses and has no prerelease. The argument is
  \<open>None\<close> when the command fails.
\<close>

fun firstRelease :: "(string \<Rightarrow> Version option) \<Rightarrow> string list \<Rightarrow> Version option" where
  "firstRelease NewVersion [] = None"
| "firstRelease NewVersion (tag # tags) =
     (if prefix ''v'' tag then
        (case NewVersion (TrimPrefix tag ''v'') of
           Some v \<Rightarrow> if pre v = [] then Some v else firstRelease NewVersion tags
         | None \<Rightarrow> firstRelease NewVersion tags)
      else firstRelease NewVersion tags)"

definition getCurrentReleaseVersion ::
  "(string \<Rightarrow> Version option) \<Rightarrow> string list option \<Rightarrow> string + Version" where
  "getCurrentReleaseVersion NewVersion out =
     (case out of
        None \<Rightarrow> Inl ''error getting git tags''
      | Some tags \<Rightarrow>
         (case firstRelease NewVersion tags of
            Some v \<Rightarrow> Inr v
          | None \<Rightarrow> Inr zeroVersion))"

text \<open>
  \<open>calculateNewVersion\<close>. \<open>allTags\<close> and \<open>vTags\<close> are the fields of the output of the two
  \<open>git tag\<close> commands, \<open>None\<close> when the command fails. The error result is \<open>nil\<close> on every
  path and is left out.
\<close>

definition calculateNewVersion ::
  "(string \<Rightarrow> Version option) \<Rightarrow> (string \<Rightarrow> bool) \<Rightarrow> string list option
     \<Rightarrow> string list option \<Rightarrow> Version \<Rightarrow> string \<Rightarrow> string \<Rightarrow> bool \<Rightarrow> string" where
  "calculateNewVersion NewVersion validatePrerelease allTags vTags current bumpType branch
       preRelease =
     (if \<not> preRelease then
        (if bumpType = ''major'' then String (IncMajor current)
         else if bumpType = ''minor'' then String (IncMinor current)
         else String (IncPatch current))
      else
        (let sb = sanitizedBranch branch;
             found = (case allTags of
                        None \<Rightarrow> (None, - 1)
                      | Some tags \<Rightarrow> scanTags NewVersion sb (None, - 1) tags)
         in case fst found of
              Some newVer \<Rightarrow>
                (let newPreRelease = sb @ ''.'' @ FormatInt (wrap64 (snd found + 1));
                     bumpedBase =
                       (if bumpType = ''major'' then IncMajor newVer
                        else if bumpType = ''minor'' then IncMinor newVer
                        else if bumpType = ''patch'' then IncPatch newVer
                        else \<lparr>major = major newVer, minor = minor newVer,
                               patch = patch newVer, pre = [], metadata = []\<rparr>)
                 in String (SetPrerelease validatePrerelease bumpedBase newPreRelease))
            | None \<Rightarrow>
                (let latestRelease =
                       (case getCurrentReleaseVersion NewVersion vTags of
                          Inl err \<Rightarrow> zeroVersion
                        | Inr v \<Rightarrow> v);
                     newPreRelease = sb @ ''.0''
                 in String (SetPrerelease validatePrerelease latestRelease newPreRelease))))"

section \<open>The tag name\<close>

text \<open>The four replacements that \<open>main\<close> makes in the tag format, in its order.\<close>

definition formatTag :: "Version \<Rightarrow> string \<Rightarrow> string" where
  "formatTag parsedNewVer tagFormat =
     (let t1 = ReplaceAll tagFormat ''{{.Major}}'' (FormatUint (unat (major parsedNewVer)));
          t2 = ReplaceAll t1 ''{{.Minor}}'' (FormatUint (unat (minor parsedNewVer)));
          t3 = ReplaceAll t2 ''{{.Patch}}'' (FormatUint (unat (patch parsedNewVer)));
          prereleasePart = pre parsedNewVer
      in if prereleasePart \<noteq> [] then ReplaceAll t3 ''{{.Prerelease}}'' (''-'' @ prereleasePart)
         else ReplaceAll t3 ''{{.Prerelease}}'' [])"

text \<open>
  \<open>main\<close> formats only when the tag format is not empty, after parsing the new version
  again (\<open>parsed\<close>, \<open>None\<close> when the parse fails and \<open>main\<close> exits); for the empty format the
  tag is \<open>v\<close> and the new version.
\<close>

definition finalTagName :: "string \<Rightarrow> string \<Rightarrow> Version option \<Rightarrow> string option" where
  "finalTagName tagFormat newVersion parsed =
     (if tagFormat \<noteq> [] then
        (case parsed of None \<Rightarrow> None | Some parsedNewVer \<Rightarrow> Some (formatTag parsedNewVer tagFormat))
      else Some (''v'' @ newVersion))"

text \<open>
  The formatter as the specification words it: the template is read from left to right;
  where one of the four placeholders starts, its value is written and the placeholder
  passed over; every other character is copied. The first argument counts the bytes of
  a placeholder still to be passed over.
\<close>

definition placeholders :: "Version \<Rightarrow> (string \<times> string) list" where
  "placeholders v =
     [(''{{.Major}}'', FormatUint (unat (major v))),
      (''{{.Minor}}'', FormatUint (unat (minor v))),
      (''{{.Patch}}'', FormatUint (unat (patch v))),
      (''{{.Prerelease}}'', if pre v = [] then [] else ''-'' @ pre v)]"

fun substitute :: "(string \<times> string) list \<Rightarrow> nat \<Rightarrow> string \<Rightarrow> string" where
  "substitute ps k [] = []"
| "substitute ps (Suc k) (c # s) = substitute ps k s"
| "substitute ps 0 (c # s) =
     (case find (\<lambda>(p, r). prefix p (c # s)) ps of
        Some (p, r) \<Rightarrow> r @ substitute ps (length p - 1) s
      | None \<Rightarrow> c # substitute ps 0 s)"

definition formatTagSpec :: "Version \<Rightarrow> string \<Rightarrow> string" where
  "formatTagSpec v template = substitute (placeholders v) 0 template"

text \<open>
  Two names for the statements about \<open>calculateNewVersion\<close>: the tags a \<open>git tag\<close> command
  gave, none when it failed; and the release version that \<open>calculateNewVersion\<close> falls back
  on, \<open>0.0.0\<close> when \<open>getCurrentReleaseVersion\<close> fails or finds none.
\<close>

definition tagList :: "string list option \<Rightarrow> string list" where
  "tagList out = (case out of None \<Rightarrow> [] | Some tags \<Rightarrow> tags)"

definition latestRelease :: "(string \<Rightarrow> Version option) \<Rightarrow> string list option \<Rightarrow> Version" where
  "latestRelease NewVersion vTags =
     (case firstRelease NewVersion (tagList vTags) of None \<Rightarrow> zeroVersion | Some v \<Rightarrow> v)"


text \<open>
  A section as the specification words it: nothing for no entries; otherwise the title
  line, an empty line, the entries one to a line, and an empty line.
\<close>

definition sectionText :: "string \<Rightarrow> string list \<Rightarrow> string" where
  "sectionText title entries =
     (if entries = [] then []
      else ''### '' @ title @ [LF, LF] @ concat (map (\<lambda>entry. entry @ [LF]) entries) @ [LF])"

definition noEntries :: categories where
  "noEntries = \<lparr>breakingChanges = [], features = [], bugFixes = [], otherChanges = []\<rparr>"

text \<open>
  The four replacements of \<open>formatTag\<close> as one expression, the last replacement text being
  the prerelease with its hyphen, or nothing.
\<close>

definition chain :: "Version \<Rightarrow> string \<Rightarrow> string" where
  "chain v t =
     ReplaceAll
       (ReplaceAll
          (ReplaceAll (ReplaceAll t ''{{.Major}}'' (FormatUint (unat (major v))))
             ''{{.Minor}}'' (FormatUint (unat (minor v))))
          ''{{.Patch}}'' (FormatUint (unat (patch v))))
       ''{{.Prerelease}}'' (if pre v = [] then [] else ''-'' @ pre v)"

text \<open>
  The bytes that occur in neither of the two sequences that \<open>ToLower\<close> reads as one rune;
  every ASCII byte is one.
\<close>

definition plain :: "char \<Rightarrow> bool" where
  "plain c = (c \<notin> {CHR 0xE2, CHR 0x84, CHR 0xAA, CHR 0xC4, CHR 0xB0})"

section \<open>Evaluation\<close>

lemmas pattern_defs =
  commitPattern_def commitTypes_def matchScope_def matchClosedScope_def matchBreaking_def
  matchColon_def matchSubject_def scopeChar_def

lemmas trim_defs = TrimSpace_def spaceRunes_def spaceLen_def

section \<open>The bump decision\<close>

lemma bumpLoop_Cons:
  "bumpLoop b (m # ms) =
     (case classify m of
        Skip \<Rightarrow> bumpLoop b ms
      | Breaking \<Rightarrow> ''major''
      | Feat \<Rightarrow> bumpLoop (if b \<noteq> ''major'' then ''minor'' else b) ms
      | Fix \<Rightarrow> bumpLoop (if b \<noteq> ''major'' \<and> b \<noteq> ''minor'' then ''patch'' else b) ms
      | Other \<Rightarrow> bumpLoop b ms)"
  by (simp add: classify_def Let_def split: option.splits)

text \<open>The result of the loop depends on the kinds of message present, not on their order.\<close>

lemma bumpLoop_kinds:
  "bumpLoop b ms =
     (if Breaking \<in> classify ` set ms then ''major''
      else if Feat \<in> classify ` set ms then (if b \<noteq> ''major'' then ''minor'' else b)
      else if Fix \<in> classify ` set ms then
        (if b \<noteq> ''major'' \<and> b \<noteq> ''minor'' then ''patch'' else b)
      else b)"
proof (induction ms arbitrary: b)
  case Nil
  show ?case by simp
next
  case (Cons m ms)
  show ?case
    by (cases "classify m") (auto simp: bumpLoop_Cons Cons.IH simp del: bumpLoop.simps)
qed

lemma determineBumpType_kinds:
  "determineBumpType ms =
     (if Breaking \<in> classify ` set ms then ''major''
      else if Feat \<in> classify ` set ms then ''minor''
      else if Fix \<in> classify ` set ms then ''patch''
      else ''none'')"
  by (simp add: determineBumpType_def bumpLoop_kinds)

lemma matchTypes_prefix:
  "matchTypes ts msg = Some mt \<Longrightarrow> mtype mt \<in> set ts \<and> prefix (mtype mt) msg"
  by (induction ts) (auto split: option.splits if_splits)

lemma commitPattern_type:
  "commitPattern msg = Some mt \<Longrightarrow> mtype mt \<in> set commitTypes \<and> prefix (mtype mt) msg"
  using matchTypes_prefix [of commitTypes msg mt] by (simp add: commitPattern_def)

lemma commitPattern_not_merge:
  "commitPattern msg = Some mt \<Longrightarrow> msg \<noteq> [] \<and> \<not> prefix ''Merge '' msg"
proof -
  assume "commitPattern msg = Some mt"
  then have "mtype mt \<in> set commitTypes" and p: "prefix (mtype mt) msg"
    by (simp_all add: commitPattern_type)
  then have "mtype mt \<noteq> [] \<and> hd (mtype mt) \<noteq> CHR ''M''"
    by (auto simp: commitTypes_def)
  with p show ?thesis
    by (cases "mtype mt"; cases msg) auto
qed

lemma classify_Breaking:
  assumes "commitPattern (TrimSpace m) = Some matches"
    and "mbreaking matches \<noteq> [] \<or> Contains (TrimSpace m) ''BREAKING CHANGE:''"
  shows "classify m = Breaking"
  using assms commitPattern_not_merge [OF assms(1)] by (auto simp: classify_def Let_def)

text \<open>
  C1 (as amended). If the list holds a message whose text, after the trimming of surrounding
  white space that \<open>determineBumpType\<close> applies to every message, matches the commit pattern
  and is breaking (the \<open>!\<close> submatch is not empty, or the text contains \<open>BREAKING CHANGE:\<close>),
  then the result is \<open>major\<close>, whatever else the list holds and in whatever order.
\<close>

theorem determineBumpType_breaking_major:
  assumes "m \<in> set commitMsgs"
    and "commitPattern (TrimSpace m) = Some matches"
    and "mbreaking matches \<noteq> [] \<or> Contains (TrimSpace m) ''BREAKING CHANGE:''"
  shows "determineBumpType commitMsgs = ''major''"
proof -
  have "classify m = Breaking"
    using assms(2,3) by (rule classify_Breaking)
  with assms(1) have "Breaking \<in> classify ` set commitMsgs"
    by force
  then show ?thesis
    by (simp add: determineBumpType_kinds)
qed

theorem determineBumpType_breaking_major_witness:
  "''fix(api)!: drop v1'' \<in> set [''feat: a'', ''fix(api)!: drop v1'', ''docs: b'']
   \<and> commitPattern (TrimSpace ''fix(api)!: drop v1'')
       = Some \<lparr>mtype = ''fix'', mscope = ''api'', mbreaking = ''!'', msubject = ''drop v1''\<rparr>
   \<and> determineBumpType [''feat: a'', ''fix(api)!: drop v1'', ''docs: b''] = ''major''"
proof -
  have h1: "''fix(api)!: drop v1'' \<in> set [''feat: a'', ''fix(api)!: drop v1'', ''docs: b'']"
    by simp
  have h2: "commitPattern (TrimSpace ''fix(api)!: drop v1'')
       = Some \<lparr>mtype = ''fix'', mscope = ''api'', mbreaking = ''!'', msubject = ''drop v1''\<rparr>"
    by (simp add: trim_defs pattern_defs)
  have h3: "mbreaking \<lparr>mtype = ''fix'', mscope = ''api'', mbreaking = ''!'',
               msubject = ''drop v1''\<rparr> \<noteq> []
            \<or> Contains (TrimSpace ''fix(api)!: drop v1'') ''BREAKING CHANGE:''"
    by simp
  from determineBumpType_breaking_major [OF h1 h2 h3] h1 h2 show ?thesis
    by simp
qed

text \<open>
  The claim as first stated speaks of the message itself. \<open>feat!: \<close> with an empty subject
  matches the pattern and carries the \<open>!\<close>, but its trimmed text \<open>feat!:\<close> has lost the space
  after the colon and is skipped.
\<close>

theorem determineBumpType_breaking_counterexample:
  "commitPattern ''feat!: ''
     = Some \<lparr>mtype = ''feat'', mscope = [], mbreaking = ''!'', msubject = []\<rparr>
   \<and> determineBumpType [''feat!: ''] = ''none''"
  by (simp add: determineBumpType_def trim_defs pattern_defs)

section \<open>The new version\<close>

lemmas version_defs =
  IncMajor_def IncMinor_def IncPatch_def SetPrerelease_def String_def zeroVersion_def
  TrimPrefix_def FormatInt_def digit_def

lemmas tag_defs =
  sanitizedBranch_def branchChar_def inRange_def sequence_def branchPreReleaseRegex_def
  digitRun_def literal_def isDigit_def Atoi_def decimal_def wrap64_def

text \<open>
  C5 (as amended). In the release regime a major bump adds one to major and sets minor and
  patch to zero; a minor bump adds one to minor and sets patch to zero; any other bump
  type adds one to patch when the current version has no prerelease, and leaves the patch
  number as it is when the current version has one. The additions are those of \<open>uint64\<close>.
  The result has neither prerelease nor metadata.
\<close>

theorem release_regime_bump:
  "calculateNewVersion NewVersion validatePrerelease allTags vTags current bumpType branch False =
     String
       (if bumpType = ''major'' then
          \<lparr>major = major current + 1, minor = 0, patch = 0, pre = [], metadata = []\<rparr>
        else if bumpType = ''minor'' then
          \<lparr>major = major current, minor = minor current + 1, patch = 0, pre = [],
           metadata = []\<rparr>
        else
          \<lparr>major = major current, minor = minor current,
           patch = (if pre current = [] then patch current + 1 else patch current),
           pre = [], metadata = []\<rparr>)"
  by (cases current) (simp add: calculateNewVersion_def IncMajor_def IncMinor_def IncPatch_def)

theorem release_regime_bump_witness:
  "calculateNewVersion (\<lambda>s. None) (\<lambda>p. True) None None
      \<lparr>major = 1, minor = 2, patch = 3, pre = [], metadata = []\<rparr> ''major'' ''main'' False
     = ''2.0.0''
   \<and> calculateNewVersion (\<lambda>s. None) (\<lambda>p. True) None None
      \<lparr>major = 1, minor = 2, patch = 3, pre = [], metadata = []\<rparr> ''minor'' ''main'' False
     = ''1.3.0''
   \<and> calculateNewVersion (\<lambda>s. None) (\<lambda>p. True) None None
      \<lparr>major = 1, minor = 2, patch = 3, pre = [], metadata = []\<rparr> ''patch'' ''main'' False
     = ''1.2.4''"
  using
    release_regime_bump [of "\<lambda>s. None" "\<lambda>p. True" None None
      "\<lparr>major = 1, minor = 2, patch = 3, pre = [], metadata = []\<rparr>" "''major''" "''main''"]
    release_regime_bump [of "\<lambda>s. None" "\<lambda>p. True" None None
      "\<lparr>major = 1, minor = 2, patch = 3, pre = [], metadata = []\<rparr>" "''minor''" "''main''"]
    release_regime_bump [of "\<lambda>s. None" "\<lambda>p. True" None None
      "\<lparr>major = 1, minor = 2, patch = 3, pre = [], metadata = []\<rparr>" "''patch''" "''main''"]
  by (simp add: String_def FormatUint.simps digit_def)

text \<open>
  The current version is the highest tag of any kind and may carry a prerelease. A patch
  bump of \<open>1.2.3-beta.1\<close> gives \<open>1.2.3\<close>: the patch number is not incremented.
\<close>

theorem release_regime_counterexample:
  "calculateNewVersion (\<lambda>s. None) (\<lambda>p. True) None None
      \<lparr>major = 1, minor = 2, patch = 3, pre = ''beta.1'', metadata = []\<rparr> ''patch'' ''main'' False
   = ''1.2.3''"
  by (simp add: calculateNewVersion_def version_defs FormatUint.simps)




text \<open>
  C2, at the input of its own example. With the one tag \<open>v1.4.0-feature-X.0\<close> on branch
  \<open>feature/X\<close>, a patch bump gives \<open>1.4.0-feature-X.1\<close>: \<open>IncPatch\<close> is called on the version
  of the tag, which carries a prerelease, so the patch number stays.
\<close>

theorem prerelease_patch_bump:
  "calculateNewVersion
     (\<lambda>s. if s = ''1.4.0-feature-X.0''
          then Some \<lparr>major = 1, minor = 4, patch = 0, pre = ''feature-X.0'', metadata = []\<rparr>
          else None)
     (\<lambda>p. True) (Some [''v1.4.0-feature-X.0'']) (Some [])
     \<lparr>major = 1, minor = 4, patch = 0, pre = ''feature-X.0'', metadata = []\<rparr>
     ''patch'' ''feature/X'' True
   = ''1.4.0-feature-X.1''"
  by (simp add: calculateNewVersion_def version_defs FormatUint.simps tag_defs)

section \<open>The language of the commit pattern\<close>

text \<open>
  What a match says about the text: it is a type, then nothing, a lone \<open>(\<close> or a scope in
  parentheses, then the \<open>!\<close> or nothing, then a colon, a space and a subject without line
  feed.
\<close>

lemma matchColon_Some:
  "matchColon s = Some r \<Longrightarrow> s = '': '' @ r \<and> LF \<notin> set r"
  by (auto simp: matchColon_def matchSubject_def prefix_def split: if_splits)

lemma matchBreaking_Some:
  "matchBreaking s = Some (b, r) \<Longrightarrow>
   s = b @ '': '' @ r \<and> (b = [] \<or> b = ''!'') \<and> LF \<notin> set r"
  by (auto simp: matchBreaking_def prefix_def split: option.splits if_splits
      dest!: matchColon_Some)

lemma matchClosedScope_Some:
  "matchClosedScope s = Some (sc, b, r) \<Longrightarrow>
   s = ''('' @ sc @ '')'' @ b @ '': '' @ r \<and> (\<forall>c \<in> set sc. scopeChar c)
   \<and> (b = [] \<or> b = ''!'') \<and> LF \<notin> set r"
proof -
  assume a: "matchClosedScope s = Some (sc, b, r)"
  then obtain t where s: "s = CHR ''('' # t"
    by (auto simp: matchClosedScope_def prefix_def split: if_splits)
  from a s obtain u where u: "dropWhile scopeChar t = CHR '')'' # u"
    and sc: "sc = takeWhile scopeChar t" and m: "matchBreaking u = Some (b, r)"
    by (auto simp: matchClosedScope_def Let_def prefix_def split: if_splits option.splits)
  have "t = takeWhile scopeChar t @ dropWhile scopeChar t" by simp
  with u sc have "t = sc @ CHR '')'' # u" by simp
  moreover have "\<forall>c \<in> set sc. scopeChar c"
    using sc by (auto dest: set_takeWhileD)
  ultimately show ?thesis
    using s matchBreaking_Some [OF m] by auto
qed

lemma matchScope_Some:
  "matchScope s = Some (sc, b, r) \<Longrightarrow>
   (\<exists>g. s = g @ b @ '': '' @ r \<and> (g = [] \<or> g = ''('' \<or> g = ''('' @ sc @ '')''))
   \<and> (\<forall>c \<in> set sc. scopeChar c) \<and> (b = [] \<or> b = ''!'') \<and> LF \<notin> set r"
proof -
  assume a: "matchScope s = Some (sc, b, r)"
  show ?thesis
  proof (cases "matchClosedScope s")
    case (Some x)
    with a have "matchClosedScope s = Some (sc, b, r)"
      by (simp add: matchScope_def)
    from matchClosedScope_Some [OF this] show ?thesis by auto
  next
    case None
    show ?thesis
    proof (cases "if prefix ''('' s then matchBreaking (drop 1 s) else None")
      case (Some y)
      with None a have sc: "sc = []" and y: "y = (b, r)"
        by (auto simp: matchScope_def split: prod.splits)
      from Some y obtain t where "s = CHR ''('' # t" and "matchBreaking t = Some (b, r)"
        by (auto simp: prefix_def split: if_splits)
      with matchBreaking_Some [of t b r] sc show ?thesis by auto
    next
      case n2: None
      with None a have sc: "sc = []" and "matchBreaking s = Some (b, r)"
        by (auto simp: matchScope_def split: option.splits prod.splits)
      with matchBreaking_Some [of s b r] show ?thesis by auto
    qed
  qed
qed

lemma matchTypes_Some:
  "matchTypes ts msg = Some mt \<Longrightarrow>
   mtype mt \<in> set ts \<and>
   (\<exists>g. msg = mtype mt @ g @ mbreaking mt @ '': '' @ msubject mt
        \<and> (g = [] \<or> g = ''('' \<or> g = ''('' @ mscope mt @ '')''))
   \<and> (\<forall>c \<in> set (mscope mt). scopeChar c)
   \<and> (mbreaking mt = [] \<or> mbreaking mt = ''!'') \<and> LF \<notin> set (msubject mt)"
proof (induction ts)
  case Nil
  then show ?case by simp
next
  case (Cons t ts)
  show ?case
  proof (cases "if prefix t msg then matchScope (drop (length t) msg) else None")
    case None
    with Cons show ?thesis by auto
  next
    case (Some x)
    obtain sc b r where x: "x = (sc, b, r)" by (cases x)
    from Some x have p: "prefix t msg" and m: "matchScope (drop (length t) msg) = Some (sc, b, r)"
      by (auto split: if_splits)
    from Some x Cons.prems
    have mt: "mt = \<lparr>mtype = t, mscope = sc, mbreaking = b, msubject = r\<rparr>"
      by simp
    from p have d: "msg = t @ drop (length t) msg"
      by (auto simp: prefix_def)
    from matchScope_Some [OF m] obtain g where
      g: "drop (length t) msg = g @ b @ '': '' @ r"
         "g = [] \<or> g = ''('' \<or> g = ''('' @ sc @ '')''"
      and rest: "\<forall>c \<in> set sc. scopeChar c" "b = [] \<or> b = ''!''" "LF \<notin> set r"
      by blast
    from d g(1) have "msg = t @ g @ b @ '': '' @ r"
      by simp
    with g(2) have "\<exists>g. msg = t @ g @ b @ '': '' @ r
        \<and> (g = [] \<or> g = ''('' \<or> g = ''('' @ sc @ '')'')"
      by blast
    with rest show ?thesis
      unfolding mt by simp
  qed
qed

lemma commitPattern_Some:
  "commitPattern msg = Some mt \<Longrightarrow>
   mtype mt \<in> set commitTypes \<and>
   (\<exists>g. msg = mtype mt @ g @ mbreaking mt @ '': '' @ msubject mt
        \<and> (g = [] \<or> g = ''('' \<or> g = ''('' @ mscope mt @ '')''))
   \<and> (\<forall>c \<in> set (mscope mt). scopeChar c)
   \<and> (mbreaking mt = [] \<or> mbreaking mt = ''!'') \<and> LF \<notin> set (msubject mt)"
  unfolding commitPattern_def by (rule matchTypes_Some)

lemma commitPattern_no_LF:
  assumes "commitPattern msg = Some mt"
  shows "LF \<notin> set msg"
proof -
  from commitPattern_Some [OF assms] obtain g where
    msg: "msg = mtype mt @ g @ mbreaking mt @ '': '' @ msubject mt"
    and g: "g = [] \<or> g = ''('' \<or> g = ''('' @ mscope mt @ '')''"
    and t: "mtype mt \<in> set commitTypes"
    and sc: "\<forall>c \<in> set (mscope mt). scopeChar c"
    and b: "mbreaking mt = [] \<or> mbreaking mt = ''!''"
    and r: "LF \<notin> set (msubject mt)"
    by blast
  from t have 1: "LF \<notin> set (mtype mt)"
    unfolding commitTypes_def by fastforce
  from sc have "LF \<notin> set (mscope mt)"
    unfolding scopeChar_def by blast
  with g have 2: "LF \<notin> set g"
    by fastforce
  from b have 3: "LF \<notin> set (mbreaking mt)"
    by fastforce
  have "set msg = set (mtype mt) \<union> set g \<union> set (mbreaking mt) \<union> set '': ''
      \<union> set (msubject mt)"
    by (subst msg) (simp only: set_append Un_assoc)
  with 1 2 3 r show ?thesis
    by simp
qed

section \<open>Messages that the bump loop skips\<close>







lemma classify_unmatched:
  "commitPattern (TrimSpace m) = None \<Longrightarrow> classify m = Skip"
  by (simp add: classify_def Let_def)

lemma classify_LF:
  assumes "LF \<in> set (TrimSpace m)"
  shows "classify m = Skip"
proof (cases "commitPattern (TrimSpace m)")
  case None
  then show ?thesis by (rule classify_unmatched)
next
  case (Some mt)
  from commitPattern_no_LF [OF this] assms show ?thesis by simp
qed


lemma determineBumpType_drop_Skip:
  assumes "\<forall>m \<in> set ins. classify m = Skip"
  shows "determineBumpType (xs @ ins @ ys) = determineBumpType (xs @ ys)"
proof -
  have "\<And>k. k \<noteq> Skip \<Longrightarrow> k \<in> classify ` set (xs @ ins @ ys) \<longleftrightarrow> k \<in> classify ` set (xs @ ys)"
    using assms by auto
  then show ?thesis
    by (simp only: determineBumpType_kinds) simp
qed

section \<open>Order, insertion and line feeds\<close>

lemmas changelog_defs =
  categorize_def categorizeOne_def shouldSkipCI_def skipPatterns_def lowerByte_def
  firstLine_def breakingMsg_def




text \<open>
  C10 (as amended). A message that contains a line feed does not match the commit pattern;
  \<open>validateCommitMessage\<close> returns false for it unless it starts with \<open>Merge \<close>; the changelog
  loop, unless it skips the message, puts its first line under Other Changes and never
  adds to BREAKING CHANGES for it. \<open>determineBumpType\<close> skips a message whose trimmed text
  contains a line feed. So a \<open>BREAKING CHANGE:\<close> marker on a line below the subject, the
  subject being a line of the trimmed text, never makes a commit breaking.
\<close>

theorem newline_unrecognized:
  "(LF \<in> set msg \<longrightarrow> commitPattern msg = None)
   \<and> (LF \<in> set msg \<and> \<not> prefix ''Merge '' msg
        \<longrightarrow> validateCommitMessage msg = (False, formatError msg))
   \<and> (LF \<in> set (TrimSpace m)
        \<longrightarrow> determineBumpType (us @ m # vs) = determineBumpType (us @ vs))
   \<and> (LF \<in> set msg \<and> \<not> shouldSkipCI msg \<and> \<not> prefix ''Merge '' msg
        \<longrightarrow> categorizeOne cs msg = cs\<lparr>otherChanges := otherChanges cs @ [firstLine msg]\<rparr>)
   \<and> (LF \<in> set msg \<longrightarrow> breakingChanges (categorizeOne cs msg) = breakingChanges cs)"
proof -
  have n: "LF \<in> set msg \<Longrightarrow> commitPattern msg = None"
    using commitPattern_no_LF [of msg] by (cases "commitPattern msg") auto
  have s: "LF \<in> set (TrimSpace m) \<Longrightarrow>
           determineBumpType (us @ m # vs) = determineBumpType (us @ vs)"
    using determineBumpType_drop_Skip [of "[m]" us vs] classify_LF [of m] by simp
  show ?thesis
    using n s by (simp add: validateCommitMessage_def categorizeOne_def)
qed

theorem newline_unrecognized_witness:
  "LF \<in> set (''feat: add x'' @ [LF] @ ''BREAKING CHANGE: y'')
   \<and> \<not> prefix ''Merge '' (''feat: add x'' @ [LF] @ ''BREAKING CHANGE: y'')
   \<and> \<not> shouldSkipCI (''feat: add x'' @ [LF] @ ''BREAKING CHANGE: y'')
   \<and> LF \<in> set (TrimSpace (''feat: add x'' @ [LF] @ ''BREAKING CHANGE: y''))
   \<and> commitPattern (''feat: add x'' @ [LF] @ ''BREAKING CHANGE: y'') = None
   \<and> fst (validateCommitMessage (''feat: add x'' @ [LF] @ ''BREAKING CHANGE: y'')) = False
   \<and> determineBumpType ([''fix: a''] @ (''feat: add x'' @ [LF] @ ''BREAKING CHANGE: y'') # [])
       = determineBumpType ([''fix: a''] @ [])
   \<and> otherChanges (categorizeOne
         \<lparr>breakingChanges = [], features = [], bugFixes = [], otherChanges = []\<rparr>
         (''feat: add x'' @ [LF] @ ''BREAKING CHANGE: y'')) = [''feat: add x'']
   \<and> breakingChanges (categorizeOne
         \<lparr>breakingChanges = [], features = [], bugFixes = [], otherChanges = []\<rparr>
         (''feat: add x'' @ [LF] @ ''BREAKING CHANGE: y'')) = []"
proof -
  let ?m = "''feat: add x'' @ [LF] @ ''BREAKING CHANGE: y''"
  let ?cs = "\<lparr>breakingChanges = [], features = [], bugFixes = [], otherChanges = []\<rparr>"
  have h1: "LF \<in> set ?m" by simp
  have h2: "\<not> prefix ''Merge '' ?m" by simp
  have h3: "\<not> shouldSkipCI ?m"
    by (simp add: shouldSkipCI_def skipPatterns_def lowerByte_def)
  have h4: "LF \<in> set (TrimSpace ?m)"
    by (simp add: trim_defs)
  note t = newline_unrecognized [of ?m ?m "[''fix: a'']" "[]" ?cs]
  from t h1 h2 h3 h4 show ?thesis
    by (simp add: firstLine_def)
qed

text \<open>
  The claim as first stated speaks of every message with a line feed. \<open>determineBumpType\<close>
  trims first: a message that ends in a line feed is matched without it.
\<close>

theorem newline_trim_counterexample:
  "LF \<in> set (''feat!: x'' @ [LF])
   \<and> \<not> prefix ''Merge '' (''feat!: x'' @ [LF])
   \<and> determineBumpType [] = ''none''
   \<and> determineBumpType [''feat!: x'' @ [LF]] = ''major''"
  by (simp add: determineBumpType_def trim_defs pattern_defs)

text \<open>
  C3, at a message whose second line is \<open>BREAKING CHANGE: y\<close>. The message contains the
  marker, but the pattern does not match a text with a line feed, so both loops treat the
  message as unrecognised before they look for the marker: the bump is \<open>none\<close>, and the
  changelog lists the first line under Other Changes.
\<close>

theorem body_marker_not_breaking:
  "Contains (''feat: add x'' @ [LF] @ ''BREAKING CHANGE: y'') ''BREAKING CHANGE:''
   \<and> determineBumpType [''feat: add x'' @ [LF] @ ''BREAKING CHANGE: y''] = ''none''
   \<and> categorize [''feat: add x'' @ [LF] @ ''BREAKING CHANGE: y'']
       = \<lparr>breakingChanges = [], features = [], bugFixes = [], otherChanges = [''feat: add x'']\<rparr>"
  by (simp add: determineBumpType_def trim_defs pattern_defs changelog_defs)

section \<open>The changelog fragment\<close>

lemma writeEntries_concat:
  "writeEntries sb entries = sb @ concat (map (\<lambda>entry. entry @ [LF]) entries)"
  by (induction entries arbitrary: sb) simp_all

lemma writeSection_sectionText:
  "writeSection title entries sb = sb @ sectionText title entries"
  by (simp add: writeSection_def sectionText_def writeEntries_concat)

text \<open>
  C9 (as amended). The fragment is the header line and then the sections BREAKING CHANGES,
  Features, Bug Fixes and Other Changes in this order, a section with no entries being
  left out. When no commit contributes an entry the fragment is the header line alone;
  it is written to the file like any other, and the flag that \<open>main\<close> derives from the call
  is set like for any other: there is no flag for empty content.
\<close>

theorem changelog_sections:
  "newChangelogContent newTagForHeader today cs
     = ''## '' @ newTagForHeader @ '' ('' @ today @ '')'' @ [LF, LF]
       @ sectionText ''BREAKING CHANGES'' (breakingChanges cs)
       @ sectionText ''Features'' (features cs)
       @ sectionText ''Bug Fixes'' (bugFixes cs)
       @ sectionText ''Other Changes'' (otherChanges cs)
   \<and> sectionText title [] = []
   \<and> (categorize commitMsgs = noEntries \<longrightarrow>
        generateReleaseNotes (Inr commitMsgs) newTagForHeader today Absent None
          = Inr (''## '' @ newTagForHeader @ '' ('' @ today @ '')'' @ [LF, LF])
        \<and> changelogGenerated True False False
            (generateReleaseNotes (Inr commitMsgs) newTagForHeader today Absent None))"
proof -
  have 1: "newChangelogContent newTagForHeader today cs
     = ''## '' @ newTagForHeader @ '' ('' @ today @ '')'' @ [LF, LF]
       @ sectionText ''BREAKING CHANGES'' (breakingChanges cs)
       @ sectionText ''Features'' (features cs)
       @ sectionText ''Bug Fixes'' (bugFixes cs)
       @ sectionText ''Other Changes'' (otherChanges cs)" for cs
    by (simp add: newChangelogContent_def Let_def writeSection_sectionText)
  have 2: "sectionText title [] = []"
    by (simp add: sectionText_def)
  have 3: "newChangelogContent newTagForHeader today noEntries
           = ''## '' @ newTagForHeader @ '' ('' @ today @ '')'' @ [LF, LF]"
    by (simp add: 1 noEntries_def sectionText_def)
  show ?thesis
    using 1 2 3 by (simp add: generateReleaseNotes_def changelogGenerated_def)
qed

theorem changelog_sections_witness:
  "newChangelogContent ''v2.0.0'' ''2024-01-01'' (categorize [''fix: c'', ''feat: a'', ''fix!: b''])
     = ''## v2.0.0 (2024-01-01)'' @ [LF, LF]
       @ ''### BREAKING CHANGES'' @ [LF, LF] @ ''- **BREAKING CHANGE:** b'' @ [LF, LF]
       @ ''### Features'' @ [LF, LF] @ ''- **feat:** a'' @ [LF, LF]
       @ ''### Bug Fixes'' @ [LF, LF] @ ''- **fix:** c'' @ [LF, LF]
   \<and> categorize [''docs: x'', ''Merge branch y''] = noEntries
   \<and> generateReleaseNotes (Inr [''docs: x'', ''Merge branch y'']) ''v2.0.0'' ''2024-01-01'' Absent None
       = Inr (''## v2.0.0 (2024-01-01)'' @ [LF, LF])"
proof -
  have c: "categorize [''fix: c'', ''feat: a'', ''fix!: b'']
    = \<lparr>breakingChanges = [''- **BREAKING CHANGE:** b''], features = [''- **feat:** a''],
       bugFixes = [''- **fix:** c''], otherChanges = []\<rparr>"
    by (simp add: changelog_defs pattern_defs)
  have h: "categorize [''docs: x'', ''Merge branch y''] = noEntries"
    by (simp add: changelog_defs pattern_defs noEntries_def)
  from changelog_sections [of "''v2.0.0''" "''2024-01-01''"
      "categorize [''fix: c'', ''feat: a'', ''fix!: b'']" "[]" "[''docs: x'', ''Merge branch y'']"]
    h c
  show ?thesis
    by (simp add: sectionText_def)
qed

text \<open>
  The claim as first stated has the output flagged as empty. For the empty commit list
  the call returns the header line with no error, and \<open>changelogGenerated\<close> is true, as it
  is for a list with a feat commit.
\<close>

theorem changelog_flag_counterexample:
  "generateReleaseNotes (Inr []) ''v2.0.0'' ''2024-01-01'' Absent None
     = Inr (''## v2.0.0 (2024-01-01)'' @ [LF, LF])
   \<and> changelogGenerated True False False
       (generateReleaseNotes (Inr []) ''v2.0.0'' ''2024-01-01'' Absent None) = True
   \<and> changelogGenerated True False False
       (generateReleaseNotes (Inr [''feat: a'']) ''v2.0.0'' ''2024-01-01'' Absent None) = True"
  by (simp add: generateReleaseNotes_def changelogGenerated_def newChangelogContent_def
      writeSection_def categorize_def)

section \<open>Substrings and lower case\<close>

lemma Contains_iff: "Contains s sub \<longleftrightarrow> (\<exists>a b. s = a @ sub @ b)"
proof (induction s)
  case Nil
  show ?case by auto
next
  case (Cons c s)
  show ?case
  proof
    assume "Contains (c # s) sub"
    then consider "prefix sub (c # s)" | "Contains s sub" by auto
    then show "\<exists>a b. c # s = a @ sub @ b"
    proof cases
      case 1
      then obtain b where "c # s = [] @ sub @ b" by (auto simp: prefix_def)
      then show ?thesis by blast
    next
      case 2
      with Cons.IH obtain a b where "s = a @ sub @ b" by blast
      then have "c # s = (c # a) @ sub @ b" by simp
      then show ?thesis by blast
    qed
  next
    assume "\<exists>a b. c # s = a @ sub @ b"
    then obtain a b where ab: "c # s = a @ sub @ b" by blast
    show "Contains (c # s) sub"
    proof (cases a)
      case Nil
      with ab have "prefix sub (c # s)" by (simp add: prefix_def)
      then show ?thesis by simp
    next
      case (Cons x a')
      with ab have "s = a' @ sub @ b" by simp
      with Cons.IH have "Contains s sub" by blast
      then show ?thesis by simp
    qed
  qed
qed

lemma afterFirst_Some:
  "afterFirst sep s = Some rest \<Longrightarrow> \<exists>before. s = before @ sep @ rest"
proof (induction s)
  case Nil
  then show ?case by (auto split: if_splits)
next
  case (Cons c s)
  show ?case
  proof (cases "prefix sep (c # s)")
    case True
    with Cons.prems have "rest = drop (length sep) (c # s)" by simp
    with True have "c # s = [] @ sep @ rest"
      by (auto simp: prefix_def)
    then show ?thesis by blast
  next
    case False
    with Cons.prems have "afterFirst sep s = Some rest" by simp
    from Cons.IH [OF this] obtain before where "s = before @ sep @ rest" by blast
    then have "c # s = (c # before) @ sep @ rest" by simp
    then show ?thesis by blast
  qed
qed

lemma afterFirst_Contains:
  "afterFirst sep s = Some rest \<Longrightarrow> Contains s sep"
  using afterFirst_Some [of sep s rest] Contains_iff [of s sep] by blast

lemma ToLower_plain: "plain c \<Longrightarrow> ToLower (c # s) = lowerByte c # ToLower s"
  by (cases s rule: ToLower.cases) (auto simp: plain_def)

lemma ToLower_plain_run:
  "\<forall>c \<in> set q. plain c \<Longrightarrow> ToLower (q @ b) = map lowerByte q @ ToLower b"
  by (induction q) (simp_all add: ToLower_plain)

lemma ToLower_before_plain:
  "plain c \<Longrightarrow> ToLower (a @ c # r) = ToLower a @ ToLower (c # r)"
proof (induction a rule: length_induct)
  case (1 a)
  have ih: "length ys < length a \<Longrightarrow> ToLower (ys @ c # r) = ToLower ys @ ToLower (c # r)"
    for ys
    using "1.IH" "1.prems" by blast
  show ?case
  proof (cases a rule: ToLower.cases)
    case (1 x y z a')
    have i1: "ToLower (a' @ c # r) = ToLower a' @ ToLower (c # r)"
      using ih [of a'] 1 by simp
    have i2: "ToLower (z # a' @ c # r) = ToLower (z # a') @ ToLower (c # r)"
      using ih [of "z # a'"] 1 by simp
    have i3: "ToLower (y # z # a' @ c # r) = ToLower (y # z # a') @ ToLower (c # r)"
      using ih [of "y # z # a'"] 1 by simp
    show ?thesis
      unfolding 1 using i1 i2 i3 by simp
  next
    case (2 x y)
    have i: "ToLower (y # c # r) = ToLower [y] @ ToLower (c # r)"
      using ih [of "[y]"] 2 by simp
    show ?thesis
      unfolding 2 using i "1.prems" by (auto simp: plain_def ToLower_plain)
  next
    case (3 x)
    show ?thesis
    proof (cases r)
      case Nil
      with 3 "1.prems" show ?thesis by (auto simp: plain_def)
    next
      case (Cons d r')
      with 3 "1.prems" show ?thesis
        by (cases r' rule: ToLower.cases) (auto simp: plain_def)
    qed
  next
    case 4
    then show ?thesis by simp
  qed
qed

lemma lowerByte_plain: "plain (lowerByte c) \<Longrightarrow> plain c"
  by (auto simp: plain_def lowerByte_def)

lemma skipPattern_plain: "pattern \<in> set skipPatterns \<Longrightarrow> \<forall>c \<in> set pattern. plain c"
  by (auto simp: skipPatterns_def plain_def)

lemma skipPattern_not_Nil: "pattern \<in> set skipPatterns \<Longrightarrow> pattern \<noteq> []"
  by (auto simp: skipPatterns_def)

lemma Contains_ToLower:
  assumes "\<forall>c \<in> set pattern. plain c" and "pattern \<noteq> []"
    and "Contains (map lowerByte msg) pattern"
  shows "Contains (ToLower msg) pattern"
proof -
  from assms(3) obtain a' b' where "map lowerByte msg = a' @ pattern @ b'"
    unfolding Contains_iff by blast
  then obtain a w where 1: "msg = a @ w" and 2: "map lowerByte w = pattern @ b'"
    by (metis map_eq_append_conv)
  from 2 obtain q b where 3: "w = q @ b" and q: "map lowerByte q = pattern"
    by (metis map_eq_append_conv)
  from 1 3 have msg: "msg = a @ q @ b" by simp
  from q assms(1) have pq: "\<forall>c \<in> set q. plain c"
    by (auto intro: lowerByte_plain)
  from q assms(2) obtain c q' where c: "q = c # q'" by (cases q) auto
  with pq have "plain c" by simp
  then have "ToLower (a @ c # (q' @ b)) = ToLower a @ ToLower (c # (q' @ b))"
    by (rule ToLower_before_plain)
  with c msg have "ToLower msg = ToLower a @ ToLower (q @ b)" by simp
  also have "\<dots> = ToLower a @ pattern @ ToLower b"
    using ToLower_plain_run [OF pq, of b] q by simp
  finally show ?thesis
    unfolding Contains_iff by blast
qed

lemma containsAny_iff: "containsAny s ps \<longleftrightarrow> (\<exists>p \<in> set ps. Contains s p)"
  by (induction ps) auto

lemma shouldSkipCI_insensitive:
  "pattern \<in> set skipPatterns \<Longrightarrow> Contains (map lowerByte msg) pattern \<Longrightarrow> shouldSkipCI msg"
  unfolding shouldSkipCI_def containsAny_iff
  using Contains_ToLower [OF skipPattern_plain skipPattern_not_Nil] by blast

lemma categorizeLoop_foldl: "categorizeLoop cs msgs = foldl categorizeOne cs msgs"
  by (induction msgs arbitrary: cs) simp_all

section \<open>The changelog categories\<close>

text \<open>
  C8 (as amended). The changelog loop handles the messages one by one, each from the
  slices the messages before it left. A message that contains one of the skip markers in
  any ASCII case, or starts with \<open>Merge \<close>, changes nothing. Of the others: an unrecognised
  message adds its first line to Other Changes; a recognised breaking commit adds one
  entry to BREAKING CHANGES and to no other slice, the entry being
  \<open>- **BREAKING CHANGE:** \<close> and the subject, followed, when the message contains the marker
  \<open>BREAKING CHANGE:\<close>, by a line feed, two spaces and the trimmed text after the first
  marker; a non-breaking feat adds \<open>- **feat:** \<close> and the subject to Features, a
  non-breaking fix \<open>- **fix:** \<close> and the subject to Bug Fixes, a non-breaking commit of a
  type other than docs, style, test and chore \<open>- **<type>:** \<close> and the subject to Other
  Changes; a non-breaking docs, style, test or chore commit changes nothing.
\<close>

theorem categorize_rules:
  "categorize commitMsgs = foldl categorizeOne noEntries commitMsgs
   \<and> (pattern \<in> set skipPatterns \<and> Contains (map lowerByte msg) pattern
        \<longrightarrow> categorizeOne cs msg = cs)
   \<and> (shouldSkipCI msg \<or> prefix ''Merge '' msg \<longrightarrow> categorizeOne cs msg = cs)
   \<and> (\<not> shouldSkipCI msg \<and> \<not> prefix ''Merge '' msg \<and> commitPattern msg = None
        \<longrightarrow> categorizeOne cs msg = cs\<lparr>otherChanges := otherChanges cs @ [firstLine msg]\<rparr>)
   \<and> (\<not> shouldSkipCI msg \<and> \<not> prefix ''Merge '' msg \<and> commitPattern msg = Some matches
        \<and> mbreaking matches \<noteq> [] \<and> \<not> Contains msg ''BREAKING CHANGE:''
        \<longrightarrow> categorizeOne cs msg
            = cs\<lparr>breakingChanges := breakingChanges cs
                  @ [''- **BREAKING CHANGE:** '' @ msubject matches]\<rparr>)
   \<and> (\<not> shouldSkipCI msg \<and> \<not> prefix ''Merge '' msg \<and> commitPattern msg = Some matches
        \<and> afterFirst ''BREAKING CHANGE:'' msg = Some rest
        \<longrightarrow> categorizeOne cs msg
            = cs\<lparr>breakingChanges := breakingChanges cs
                  @ [''- **BREAKING CHANGE:** '' @ msubject matches @ [LF] @ ''  ''
                     @ TrimSpace rest]\<rparr>)
   \<and> (Contains msg ''BREAKING CHANGE:'' \<longrightarrow> afterFirst ''BREAKING CHANGE:'' msg \<noteq> None)
   \<and> (\<not> shouldSkipCI msg \<and> \<not> prefix ''Merge '' msg \<and> commitPattern msg = Some matches
        \<and> mbreaking matches = [] \<and> \<not> Contains msg ''BREAKING CHANGE:''
        \<and> mtype matches = ''feat''
        \<longrightarrow> categorizeOne cs msg
            = cs\<lparr>features := features cs @ [''- **feat:** '' @ msubject matches]\<rparr>)
   \<and> (\<not> shouldSkipCI msg \<and> \<not> prefix ''Merge '' msg \<and> commitPattern msg = Some matches
        \<and> mbreaking matches = [] \<and> \<not> Contains msg ''BREAKING CHANGE:''
        \<and> mtype matches = ''fix''
        \<longrightarrow> categorizeOne cs msg
            = cs\<lparr>bugFixes := bugFixes cs @ [''- **fix:** '' @ msubject matches]\<rparr>)
   \<and> (\<not> shouldSkipCI msg \<and> \<not> prefix ''Merge '' msg \<and> commitPattern msg = Some matches
        \<and> mbreaking matches = [] \<and> \<not> Contains msg ''BREAKING CHANGE:''
        \<and> mtype matches \<notin> {''feat'', ''fix'', ''docs'', ''style'', ''test'', ''chore''}
        \<longrightarrow> categorizeOne cs msg
            = cs\<lparr>otherChanges := otherChanges cs
                  @ [''- **'' @ mtype matches @ '':** '' @ msubject matches]\<rparr>)
   \<and> (commitPattern msg = Some matches
        \<and> mbreaking matches = [] \<and> \<not> Contains msg ''BREAKING CHANGE:''
        \<and> mtype matches \<in> {''docs'', ''style'', ''test'', ''chore''}
        \<longrightarrow> categorizeOne cs msg = cs)"
proof -
  have c1: "categorize commitMsgs = foldl categorizeOne noEntries commitMsgs"
    by (simp add: categorize_def noEntries_def categorizeLoop_foldl)
  have c3: "shouldSkipCI msg \<or> prefix ''Merge '' msg \<longrightarrow> categorizeOne cs msg = cs"
    by (simp add: categorizeOne_def)
  have c2: "pattern \<in> set skipPatterns \<and> Contains (map lowerByte msg) pattern
        \<longrightarrow> categorizeOne cs msg = cs"
    using c3 shouldSkipCI_insensitive [of pattern msg] by blast
  have c4: "\<not> shouldSkipCI msg \<and> \<not> prefix ''Merge '' msg \<and> commitPattern msg = None
        \<longrightarrow> categorizeOne cs msg = cs\<lparr>otherChanges := otherChanges cs @ [firstLine msg]\<rparr>"
    by (simp add: categorizeOne_def)
  have c5: "\<not> shouldSkipCI msg \<and> \<not> prefix ''Merge '' msg \<and> commitPattern msg = Some matches
        \<and> mbreaking matches \<noteq> [] \<and> \<not> Contains msg ''BREAKING CHANGE:''
        \<longrightarrow> categorizeOne cs msg
            = cs\<lparr>breakingChanges := breakingChanges cs
                  @ [''- **BREAKING CHANGE:** '' @ msubject matches]\<rparr>"
    by (simp add: categorizeOne_def breakingMsg_def Let_def)
  have c6: "\<not> shouldSkipCI msg \<and> \<not> prefix ''Merge '' msg \<and> commitPattern msg = Some matches
        \<and> afterFirst ''BREAKING CHANGE:'' msg = Some rest
        \<longrightarrow> categorizeOne cs msg
            = cs\<lparr>breakingChanges := breakingChanges cs
                  @ [''- **BREAKING CHANGE:** '' @ msubject matches @ [LF] @ ''  ''
                     @ TrimSpace rest]\<rparr>"
    using afterFirst_Contains [of "''BREAKING CHANGE:''" msg rest]
    by (simp add: categorizeOne_def breakingMsg_def Let_def)
  have c7: "Contains msg ''BREAKING CHANGE:'' \<longrightarrow> afterFirst ''BREAKING CHANGE:'' msg \<noteq> None"
    by (induction msg) simp_all
  have c8: "\<not> shouldSkipCI msg \<and> \<not> prefix ''Merge '' msg \<and> commitPattern msg = Some matches
        \<and> mbreaking matches = [] \<and> \<not> Contains msg ''BREAKING CHANGE:''
        \<and> mtype matches = ''feat''
        \<longrightarrow> categorizeOne cs msg
            = cs\<lparr>features := features cs @ [''- **feat:** '' @ msubject matches]\<rparr>"
    by (simp add: categorizeOne_def Let_def)
  have c9: "\<not> shouldSkipCI msg \<and> \<not> prefix ''Merge '' msg \<and> commitPattern msg = Some matches
        \<and> mbreaking matches = [] \<and> \<not> Contains msg ''BREAKING CHANGE:''
        \<and> mtype matches = ''fix''
        \<longrightarrow> categorizeOne cs msg
            = cs\<lparr>bugFixes := bugFixes cs @ [''- **fix:** '' @ msubject matches]\<rparr>"
    by (simp add: categorizeOne_def Let_def)
  have c10: "\<not> shouldSkipCI msg \<and> \<not> prefix ''Merge '' msg \<and> commitPattern msg = Some matches
        \<and> mbreaking matches = [] \<and> \<not> Contains msg ''BREAKING CHANGE:''
        \<and> mtype matches \<notin> {''feat'', ''fix'', ''docs'', ''style'', ''test'', ''chore''}
        \<longrightarrow> categorizeOne cs msg
            = cs\<lparr>otherChanges := otherChanges cs
                  @ [''- **'' @ mtype matches @ '':** '' @ msubject matches]\<rparr>"
    by (simp add: categorizeOne_def Let_def)
  have c11: "commitPattern msg = Some matches
        \<and> mbreaking matches = [] \<and> \<not> Contains msg ''BREAKING CHANGE:''
        \<and> mtype matches \<in> {''docs'', ''style'', ''test'', ''chore''}
        \<longrightarrow> categorizeOne cs msg = cs"
    by (auto simp: categorizeOne_def Let_def)
  from c1 c2 c3 c4 c5 c6 c7 c8 c9 c10 c11 show ?thesis
    by (intro conjI)
qed

text \<open>
  The claim as first stated gives the breaking entry as \<open>- **BREAKING CHANGE:** \<close> and the
  subject. For a subject that contains the marker the entry has a second line.
\<close>

theorem categorize_breaking_counterexample:
  "commitPattern ''feat: drop BREAKING CHANGE: api''
     = Some \<lparr>mtype = ''feat'', mscope = [], mbreaking = [],
             msubject = ''drop BREAKING CHANGE: api''\<rparr>
   \<and> categorize [''feat: drop BREAKING CHANGE: api'']
     = \<lparr>breakingChanges =
          [''- **BREAKING CHANGE:** drop BREAKING CHANGE: api'' @ [LF] @ ''  api''],
        features = [], bugFixes = [], otherChanges = []\<rparr>"
  by (simp add: changelog_defs pattern_defs trim_defs)

theorem categorize_rules_witness:
  "shouldSkipCI ''chore: release [Skip-CI]''
   \<and> commitPattern ''junk line'' = None
   \<and> categorizeOne noEntries ''chore: release [Skip-CI]'' = noEntries
   \<and> categorizeOne noEntries ''junk line'' = noEntries\<lparr>otherChanges := [''junk line'']\<rparr>
   \<and> categorizeOne noEntries ''feat!: a''
       = noEntries\<lparr>breakingChanges := [''- **BREAKING CHANGE:** a'']\<rparr>
   \<and> categorizeOne noEntries ''feat: b'' = noEntries\<lparr>features := [''- **feat:** b'']\<rparr>
   \<and> categorizeOne noEntries ''fix: c'' = noEntries\<lparr>bugFixes := [''- **fix:** c'']\<rparr>
   \<and> categorizeOne noEntries ''perf: d'' = noEntries\<lparr>otherChanges := [''- **perf:** d'']\<rparr>
   \<and> categorizeOne noEntries ''docs: e'' = noEntries
   \<and> categorize
       [''chore: release [Skip-CI]'', ''Merge branch y'', ''junk line'', ''feat!: a'',
        ''feat: b'', ''fix: c'', ''perf: d'', ''docs: e'']
       = foldl categorizeOne noEntries
       [''chore: release [Skip-CI]'', ''Merge branch y'', ''junk line'', ''feat!: a'',
        ''feat: b'', ''fix: c'', ''perf: d'', ''docs: e'']"
proof -
  have s: "shouldSkipCI ''chore: release [Skip-CI]''"
    by (simp add: shouldSkipCI_def skipPatterns_def lowerByte_def)
  have n: "\<not> shouldSkipCI m \<and> \<not> prefix ''Merge '' m \<and> \<not> Contains m ''BREAKING CHANGE:''"
    if "m \<in> set [''junk line'', ''feat!: a'', ''feat: b'', ''fix: c'', ''perf: d'', ''docs: e'']"
    for m
    using that by (auto simp: shouldSkipCI_def skipPatterns_def lowerByte_def)
  have j: "commitPattern ''junk line'' = None"
    by (simp add: pattern_defs)
  have p_brk: "commitPattern ''feat!: a''
      = Some \<lparr>mtype = ''feat'', mscope = [], mbreaking = ''!'', msubject = ''a''\<rparr>"
    by (simp add: pattern_defs)
  have p_feat: "commitPattern ''feat: b''
      = Some \<lparr>mtype = ''feat'', mscope = [], mbreaking = [], msubject = ''b''\<rparr>"
    by (simp add: pattern_defs)
  have p_fix: "commitPattern ''fix: c''
      = Some \<lparr>mtype = ''fix'', mscope = [], mbreaking = [], msubject = ''c''\<rparr>"
    by (simp add: pattern_defs)
  have p_perf: "commitPattern ''perf: d''
      = Some \<lparr>mtype = ''perf'', mscope = [], mbreaking = [], msubject = ''d''\<rparr>"
    by (simp add: pattern_defs)
  have p_docs: "commitPattern ''docs: e''
      = Some \<lparr>mtype = ''docs'', mscope = [], mbreaking = [], msubject = ''e''\<rparr>"
    by (simp add: pattern_defs)
  have r_skip: "categorizeOne noEntries ''chore: release [Skip-CI]'' = noEntries"
    using categorize_rules [of "[]" "[]" "''chore: release [Skip-CI]''" noEntries
        "\<lparr>mtype = [], mscope = [], mbreaking = [], msubject = []\<rparr>" "[]",
         THEN conjunct2, THEN conjunct2, THEN conjunct1]
      s
    by (simp add: firstLine_def noEntries_def)
  have r_junk: "categorizeOne noEntries ''junk line'' = noEntries\<lparr>otherChanges := [''junk line'']\<rparr>"
    using categorize_rules [of "[]" "[]" "''junk line''" noEntries
        "\<lparr>mtype = [], mscope = [], mbreaking = [], msubject = []\<rparr>" "[]",
         THEN conjunct2, THEN conjunct2, THEN conjunct2, THEN conjunct1]
      j n [of "''junk line''"]
    by (simp add: firstLine_def noEntries_def)
  have r_brk: "categorizeOne noEntries ''feat!: a''
       = noEntries\<lparr>breakingChanges := [''- **BREAKING CHANGE:** a'']\<rparr>"
    using categorize_rules [of "[]" "[]" "''feat!: a''" noEntries
        "\<lparr>mtype = ''feat'', mscope = [], mbreaking = ''!'', msubject = ''a''\<rparr>" "[]",
         THEN conjunct2, THEN conjunct2, THEN conjunct2, THEN conjunct2, THEN conjunct1]
      p_brk n [of "''feat!: a''"]
    by (simp add: firstLine_def noEntries_def)
  have r_feat: "categorizeOne noEntries ''feat: b'' = noEntries\<lparr>features := [''- **feat:** b'']\<rparr>"
    using categorize_rules [of "[]" "[]" "''feat: b''" noEntries
        "\<lparr>mtype = ''feat'', mscope = [], mbreaking = [], msubject = ''b''\<rparr>" "[]",
         THEN conjunct2, THEN conjunct2, THEN conjunct2, THEN conjunct2, THEN conjunct2,
         THEN conjunct2, THEN conjunct2, THEN conjunct1]
      p_feat n [of "''feat: b''"]
    by (simp add: firstLine_def noEntries_def)
  have r_fix: "categorizeOne noEntries ''fix: c'' = noEntries\<lparr>bugFixes := [''- **fix:** c'']\<rparr>"
    using categorize_rules [of "[]" "[]" "''fix: c''" noEntries
        "\<lparr>mtype = ''fix'', mscope = [], mbreaking = [], msubject = ''c''\<rparr>" "[]",
         THEN conjunct2, THEN conjunct2, THEN conjunct2, THEN conjunct2, THEN conjunct2,
         THEN conjunct2, THEN conjunct2, THEN conjunct2, THEN conjunct1]
      p_fix n [of "''fix: c''"]
    by (simp add: firstLine_def noEntries_def)
  have r_perf: "categorizeOne noEntries ''perf: d'' = noEntries\<lparr>otherChanges := [''- **perf:** d'']\<rparr>"
    using categorize_rules [of "[]" "[]" "''perf: d''" noEntries
        "\<lparr>mtype = ''perf'', mscope = [], mbreaking = [], msubject = ''d''\<rparr>" "[]",
         THEN conjunct2, THEN conjunct2, THEN conjunct2, THEN conjunct2, THEN conjunct2,
         THEN conjunct2, THEN conjunct2, THEN conjunct2, THEN conjunct2, THEN conjunct1]
      p_perf n [of "''perf: d''"]
    by (simp add: firstLine_def noEntries_def)
  have r_docs: "categorizeOne noEntries ''docs: e'' = noEntries"
    using categorize_rules [of "[]" "[]" "''docs: e''" noEntries
        "\<lparr>mtype = ''docs'', mscope = [], mbreaking = [], msubject = ''e''\<rparr>" "[]",
         THEN conjunct2, THEN conjunct2, THEN conjunct2, THEN conjunct2, THEN conjunct2,
         THEN conjunct2, THEN conjunct2, THEN conjunct2, THEN conjunct2, THEN conjunct2]
      p_docs n [of "''docs: e''"]
    by (simp add: firstLine_def noEntries_def)
  have l: "categorize
       [''chore: release [Skip-CI]'', ''Merge branch y'', ''junk line'', ''feat!: a'',
        ''feat: b'', ''fix: c'', ''perf: d'', ''docs: e'']
       = foldl categorizeOne noEntries
       [''chore: release [Skip-CI]'', ''Merge branch y'', ''junk line'', ''feat!: a'',
        ''feat: b'', ''fix: c'', ''perf: d'', ''docs: e'']"
    by (rule categorize_rules [THEN conjunct1])
  from s j r_skip r_junk r_brk r_feat r_fix r_perf r_docs l show ?thesis
    by (intro conjI)
qed

section \<open>The tag format\<close>

lemma ReplaceAll_prefix:
  "ReplaceAll ((p # old) @ s) (p # old) new = new @ ReplaceAll s (p # old) new"
  by simp

lemma ReplaceAll_other:
  "\<forall>c \<in> set x. c \<noteq> p \<Longrightarrow> ReplaceAll (x @ s) (p # old) new = x @ ReplaceAll s (p # old) new"
  by (induction x) auto

lemma ReplaceAll_reflects_prefix:
  assumes "new \<noteq> []" and "hd new \<notin> set u"
  shows "prefix u (ReplaceAll x (p # old) new) \<Longrightarrow> prefix u x"
  using assms(2)
proof (induction u arbitrary: x)
  case Nil
  show ?case by simp
next
  case (Cons a u)
  from Cons.prems obtain c s where x: "x = c # s"
    by (cases x) auto
  have np: "\<not> prefix (p # old) (c # s)"
  proof
    assume pr: "prefix (p # old) (c # s)"
    have "ReplaceAll (c # s) (p # old) new
          = new @ ReplaceAll (drop (length old) s) (p # old) new"
      using pr by (simp only: ReplaceAll.simps if_True)
    with Cons.prems(1) x
    have "prefix (a # u) (new @ ReplaceAll (drop (length old) s) (p # old) new)"
      by (simp only:)
    with assms(1) have "a = hd new"
      by (cases new) auto
    with Cons.prems(2) show False by simp
  qed
  then have "ReplaceAll (c # s) (p # old) new = c # ReplaceAll s (p # old) new"
    by (simp only: ReplaceAll.simps if_False)
  with Cons.prems(1) x have "prefix (a # u) (c # ReplaceAll s (p # old) new)"
    by (simp only:)
  then have "a = c" "prefix u (ReplaceAll s (p # old) new)"
    by simp_all
  with Cons.IH [of s] Cons.prems(2) x show ?case by simp
qed

lemma digit_in: "n < 10 \<Longrightarrow> digit n \<in> set ''0123456789''"
proof -
  assume "n < 10"
  then have "n \<in> {0, 1, 2, 3, 4, 5, 6, 7, 8, 9}" by auto
  then show ?thesis
    unfolding digit_def by (elim insertE emptyE) simp_all
qed

lemma FormatUint_digits: "set (FormatUint n) \<subseteq> set ''0123456789''"
proof (induction n rule: FormatUint.induct)
  case (1 n)
  show ?case
  proof (cases "n < 10")
    case True
    with digit_in [of n] show ?thesis
      by (subst FormatUint.simps) simp
  next
    case False
    have "n mod 10 < 10" by simp
    from digit_in [OF this] 1 [OF False] False show ?thesis
      by (subst FormatUint.simps) simp
  qed
qed

lemma FormatUint_not_Nil: "FormatUint n \<noteq> []"
  by (subst FormatUint.simps) simp

lemma FormatUint_hd: "hd (FormatUint n) \<in> set ''0123456789''"
  using FormatUint_digits [of n] FormatUint_not_Nil [of n]
  by (meson hd_in_set subsetD)

lemma substitute_skip:
  "substitute ps (length xs) (xs @ s) = substitute ps 0 s"
  by (induction xs) simp_all

lemma substitute_Major:
  "substitute (placeholders v) 0 (''{{.Major}}'' @ s)
   = FormatUint (unat (major v)) @ substitute (placeholders v) 0 s"
  using substitute_skip [of "placeholders v" "''{.Major}}''" s]
  by (simp add: placeholders_def)

lemma substitute_Minor:
  "substitute (placeholders v) 0 (''{{.Minor}}'' @ s)
   = FormatUint (unat (minor v)) @ substitute (placeholders v) 0 s"
  using substitute_skip [of "placeholders v" "''{.Minor}}''" s]
  by (simp add: placeholders_def)

lemma substitute_Patch:
  "substitute (placeholders v) 0 (''{{.Patch}}'' @ s)
   = FormatUint (unat (patch v)) @ substitute (placeholders v) 0 s"
  using substitute_skip [of "placeholders v" "''{.Patch}}''" s]
  by (simp add: placeholders_def)

lemma substitute_Prerelease:
  "substitute (placeholders v) 0 (''{{.Prerelease}}'' @ s)
   = (if pre v = [] then [] else ''-'' @ pre v) @ substitute (placeholders v) 0 s"
  using substitute_skip [of "placeholders v" "''{.Prerelease}}''" s]
  by (simp add: placeholders_def)

lemma substitute_none:
  assumes "\<not> prefix ''{{.Major}}'' (c # s)" and "\<not> prefix ''{{.Minor}}'' (c # s)"
    and "\<not> prefix ''{{.Patch}}'' (c # s)" and "\<not> prefix ''{{.Prerelease}}'' (c # s)"
  shows "substitute (placeholders v) 0 (c # s) = c # substitute (placeholders v) 0 s"
proof -
  have "find (\<lambda>(p, r). prefix p (c # s)) (placeholders v) = None"
    unfolding placeholders_def
    by (simp only: find.simps case_prod_conv assms if_False)
  then show ?thesis
    by (simp only: substitute.simps option.case)
qed

lemma FormatUint_no_brace: "\<forall>c \<in> set (FormatUint n). c \<noteq> CHR ''{''"
  using FormatUint_digits [of n] by auto

lemma FormatUint_hd_not_in:
  "hd (FormatUint n) \<notin> set ''{{.Minor}}''"
  "hd (FormatUint n) \<notin> set ''{{.Patch}}''"
  "hd (FormatUint n) \<notin> set ''{{.Prerelease}}''"
  using FormatUint_hd [of n] by auto

lemma pass_digits:
  "ReplaceAll (FormatUint n @ s) (CHR ''{'' # old) new
   = FormatUint n @ ReplaceAll s (CHR ''{'' # old) new"
  using FormatUint_no_brace by (rule ReplaceAll_other)

lemma pass_placeholder:
  "ReplaceAll (''{{.Minor}}'' @ s) ''{{.Major}}'' new = ''{{.Minor}}'' @ ReplaceAll s ''{{.Major}}'' new"
  "ReplaceAll (''{{.Patch}}'' @ s) ''{{.Major}}'' new = ''{{.Patch}}'' @ ReplaceAll s ''{{.Major}}'' new"
  "ReplaceAll (''{{.Prerelease}}'' @ s) ''{{.Major}}'' new
     = ''{{.Prerelease}}'' @ ReplaceAll s ''{{.Major}}'' new"
  "ReplaceAll (''{{.Patch}}'' @ s) ''{{.Minor}}'' new = ''{{.Patch}}'' @ ReplaceAll s ''{{.Minor}}'' new"
  "ReplaceAll (''{{.Prerelease}}'' @ s) ''{{.Minor}}'' new
     = ''{{.Prerelease}}'' @ ReplaceAll s ''{{.Minor}}'' new"
  "ReplaceAll (''{{.Prerelease}}'' @ s) ''{{.Patch}}'' new
     = ''{{.Prerelease}}'' @ ReplaceAll s ''{{.Patch}}'' new"
  by simp_all

lemma replace_placeholder:
  "ReplaceAll (''{{.Major}}'' @ s) ''{{.Major}}'' new = new @ ReplaceAll s ''{{.Major}}'' new"
  "ReplaceAll (''{{.Minor}}'' @ s) ''{{.Minor}}'' new = new @ ReplaceAll s ''{{.Minor}}'' new"
  "ReplaceAll (''{{.Patch}}'' @ s) ''{{.Patch}}'' new = new @ ReplaceAll s ''{{.Patch}}'' new"
  "ReplaceAll (''{{.Prerelease}}'' @ s) ''{{.Prerelease}}'' new
     = new @ ReplaceAll s ''{{.Prerelease}}'' new"
  by simp_all

lemma keep_char:
  "\<not> prefix (p # old) (c # s) \<Longrightarrow> ReplaceAll (c # s) (p # old) new = c # ReplaceAll s (p # old) new"
  by (simp only: ReplaceAll.simps if_False)

lemma formatTag_chain: "formatTag v t = chain v t"
  by (simp add: formatTag_def chain_def Let_def)

lemma chain_Nil: "chain v [] = []"
  by (simp add: chain_def)

lemma chain_Major:
  "chain v (''{{.Major}}'' @ s) = FormatUint (unat (major v)) @ chain v s"
  unfolding chain_def by (simp only: replace_placeholder pass_digits)

lemma chain_Minor:
  "chain v (''{{.Minor}}'' @ s) = FormatUint (unat (minor v)) @ chain v s"
  unfolding chain_def by (simp only: replace_placeholder pass_placeholder pass_digits)

lemma chain_Patch:
  "chain v (''{{.Patch}}'' @ s) = FormatUint (unat (patch v)) @ chain v s"
  unfolding chain_def by (simp only: replace_placeholder pass_placeholder pass_digits)

lemma chain_Prerelease:
  "chain v (''{{.Prerelease}}'' @ s) = (if pre v = [] then [] else ''-'' @ pre v) @ chain v s"
  unfolding chain_def by (simp only: replace_placeholder pass_placeholder)

lemma chain_char:
  assumes 1: "\<not> prefix ''{{.Major}}'' (c # s)" and 2: "\<not> prefix ''{{.Minor}}'' (c # s)"
    and 3: "\<not> prefix ''{{.Patch}}'' (c # s)" and 4: "\<not> prefix ''{{.Prerelease}}'' (c # s)"
  shows "chain v (c # s) = c # chain v s"
proof -
  let ?n1 = "FormatUint (unat (major v))"
  let ?n2 = "FormatUint (unat (minor v))"
  let ?n3 = "FormatUint (unat (patch v))"
  let ?r1 = "ReplaceAll s ''{{.Major}}'' ?n1"
  let ?r2 = "ReplaceAll ?r1 ''{{.Minor}}'' ?n2"
  let ?r3 = "ReplaceAll ?r2 ''{{.Patch}}'' ?n3"
  have a: "ReplaceAll (c # s) ''{{.Major}}'' ?n1 = c # ?r1"
    using 1 by (rule keep_char)
  have "\<not> prefix ''{{.Minor}}'' (c # ?r1)"
  proof
    assume "prefix ''{{.Minor}}'' (c # ?r1)"
    then have "prefix ''{{.Minor}}'' (ReplaceAll (c # s) ''{{.Major}}'' ?n1)"
      by (simp only: a)
    then have "prefix ''{{.Minor}}'' (c # s)"
      by (rule ReplaceAll_reflects_prefix [OF FormatUint_not_Nil FormatUint_hd_not_in(1)])
    with 2 show False ..
  qed
  then have b: "ReplaceAll (c # ?r1) ''{{.Minor}}'' ?n2 = c # ?r2"
    by (rule keep_char)
  have "\<not> prefix ''{{.Patch}}'' (c # ?r2)"
  proof
    assume "prefix ''{{.Patch}}'' (c # ?r2)"
    then have "prefix ''{{.Patch}}''
        (ReplaceAll (ReplaceAll (c # s) ''{{.Major}}'' ?n1) ''{{.Minor}}'' ?n2)"
      by (simp only: a b)
    then have "prefix ''{{.Patch}}'' (ReplaceAll (c # s) ''{{.Major}}'' ?n1)"
      by (rule ReplaceAll_reflects_prefix [OF FormatUint_not_Nil FormatUint_hd_not_in(2)])
    then have "prefix ''{{.Patch}}'' (c # s)"
      by (rule ReplaceAll_reflects_prefix [OF FormatUint_not_Nil FormatUint_hd_not_in(2)])
    with 3 show False ..
  qed
  then have c: "ReplaceAll (c # ?r2) ''{{.Patch}}'' ?n3 = c # ?r3"
    by (rule keep_char)
  have "\<not> prefix ''{{.Prerelease}}'' (c # ?r3)"
  proof
    assume "prefix ''{{.Prerelease}}'' (c # ?r3)"
    then have "prefix ''{{.Prerelease}}''
        (ReplaceAll (ReplaceAll (ReplaceAll (c # s) ''{{.Major}}'' ?n1) ''{{.Minor}}'' ?n2)
           ''{{.Patch}}'' ?n3)"
      by (simp only: a b c)
    then have "prefix ''{{.Prerelease}}''
        (ReplaceAll (ReplaceAll (c # s) ''{{.Major}}'' ?n1) ''{{.Minor}}'' ?n2)"
      by (rule ReplaceAll_reflects_prefix [OF FormatUint_not_Nil FormatUint_hd_not_in(3)])
    then have "prefix ''{{.Prerelease}}'' (ReplaceAll (c # s) ''{{.Major}}'' ?n1)"
      by (rule ReplaceAll_reflects_prefix [OF FormatUint_not_Nil FormatUint_hd_not_in(3)])
    then have "prefix ''{{.Prerelease}}'' (c # s)"
      by (rule ReplaceAll_reflects_prefix [OF FormatUint_not_Nil FormatUint_hd_not_in(3)])
    with 4 show False ..
  qed
  then have d: "ReplaceAll (c # ?r3) ''{{.Prerelease}}'' (if pre v = [] then [] else ''-'' @ pre v)
      = c # ReplaceAll ?r3 ''{{.Prerelease}}'' (if pre v = [] then [] else ''-'' @ pre v)"
    by (rule keep_char)
  show ?thesis
    unfolding chain_def by (simp only: a b c d)
qed

lemma chain_substitute: "chain v t = substitute (placeholders v) 0 t"
proof (induction t rule: length_induct)
  case (1 t)
  consider (nil) "t = []"
    | (major) s where "t = ''{{.Major}}'' @ s"
    | (minor) s where "t = ''{{.Minor}}'' @ s"
    | (patch) s where "t = ''{{.Patch}}'' @ s"
    | (prerelease) s where "t = ''{{.Prerelease}}'' @ s"
    | (char) c s where "t = c # s" "\<not> prefix ''{{.Major}}'' (c # s)"
        "\<not> prefix ''{{.Minor}}'' (c # s)" "\<not> prefix ''{{.Patch}}'' (c # s)"
        "\<not> prefix ''{{.Prerelease}}'' (c # s)"
    unfolding prefix_def by (cases t) blast+
  then show ?case
  proof cases
    case nil
    then show ?thesis by (simp add: chain_Nil)
  next
    case major
    with 1 have "chain v s = substitute (placeholders v) 0 s" by simp
    with major show ?thesis by (simp only: chain_Major substitute_Major)
  next
    case minor
    with 1 have "chain v s = substitute (placeholders v) 0 s" by simp
    with minor show ?thesis by (simp only: chain_Minor substitute_Minor)
  next
    case patch
    with 1 have "chain v s = substitute (placeholders v) 0 s" by simp
    with patch show ?thesis by (simp only: chain_Patch substitute_Patch)
  next
    case prerelease
    with 1 have "chain v s = substitute (placeholders v) 0 s" by simp
    with prerelease show ?thesis by (simp only: chain_Prerelease substitute_Prerelease)
  next
    case char
    with 1 have "chain v s = substitute (placeholders v) 0 s" by simp
    with char show ?thesis
      by (simp only: chain_char [OF char(2-5)] substitute_none [OF char(2-5)])
  qed
qed


text \<open>
  C7. For every version and template, the four replacements give the template with every
  occurrence of \<open>{{.Major}}\<close>, \<open>{{.Minor}}\<close> and \<open>{{.Patch}}\<close> replaced by the decimal digits of
  the number, every occurrence of \<open>{{.Prerelease}}\<close> replaced by nothing when the version
  has no prerelease and by a hyphen and the prerelease otherwise, and every other
  character, unknown placeholders included, copied. There is no error result. \<open>main\<close>
  formats whenever the tag format is not empty.
\<close>

theorem formatTag_substitutes:
  "formatTag v template = formatTagSpec v template
   \<and> (template \<noteq> [] \<longrightarrow>
        finalTagName template newVersion (Some v) = Some (formatTagSpec v template))"
  by (simp add: finalTagName_def formatTag_chain chain_substitute formatTagSpec_def)

theorem formatTag_substitutes_witness:
  "formatTag \<lparr>major = 2, minor = 0, patch = 0, pre = [], metadata = []\<rparr>
      ''v{{.Major}}.{{.Minor}}.{{.Patch}}{{.Prerelease}}'' = ''v2.0.0''
   \<and> formatTag \<lparr>major = 2, minor = 0, patch = 0, pre = ''rc.1'', metadata = []\<rparr>
      ''v{{.Major}}.{{.Minor}}.{{.Patch}}{{.Prerelease}}'' = ''v2.0.0-rc.1''
   \<and> finalTagName ''release-{{.Major}}.{{.Minor}}{{.Build}}'' ''2.13.0''
        (Some \<lparr>major = 2, minor = 13, patch = 0, pre = [], metadata = []\<rparr>)
      = Some ''release-2.13{{.Build}}''"
proof -
  have e1: "formatTagSpec \<lparr>major = 2, minor = 0, patch = 0, pre = [], metadata = []\<rparr>
      ''v{{.Major}}.{{.Minor}}.{{.Patch}}{{.Prerelease}}'' = ''v2.0.0''"
    by (simp add: formatTagSpec_def placeholders_def FormatUint.simps digit_def)
  have e2: "formatTagSpec \<lparr>major = 2, minor = 0, patch = 0, pre = ''rc.1'', metadata = []\<rparr>
      ''v{{.Major}}.{{.Minor}}.{{.Patch}}{{.Prerelease}}'' = ''v2.0.0-rc.1''"
    by (simp add: formatTagSpec_def placeholders_def FormatUint.simps digit_def)
  have e3: "formatTagSpec \<lparr>major = 2, minor = 13, patch = 0, pre = [], metadata = []\<rparr>
      ''release-{{.Major}}.{{.Minor}}{{.Build}}'' = ''release-2.13{{.Build}}''"
    by (simp add: formatTagSpec_def placeholders_def FormatUint.simps digit_def)
  have h: "''release-{{.Major}}.{{.Minor}}{{.Build}}'' \<noteq> []"
    by simp
  note t1 = formatTag_substitutes
    [of "\<lparr>major = 2, minor = 0, patch = 0, pre = [], metadata = []\<rparr>"
        "''v{{.Major}}.{{.Minor}}.{{.Patch}}{{.Prerelease}}''", THEN conjunct1]
  note t2 = formatTag_substitutes
    [of "\<lparr>major = 2, minor = 0, patch = 0, pre = ''rc.1'', metadata = []\<rparr>"
        "''v{{.Major}}.{{.Minor}}.{{.Patch}}{{.Prerelease}}''", THEN conjunct1]
  note t3 = formatTag_substitutes
    [of "\<lparr>major = 2, minor = 13, patch = 0, pre = [], metadata = []\<rparr>"
        "''release-{{.Major}}.{{.Minor}}{{.Build}}''" "''2.13.0''", THEN conjunct2, THEN mp, OF h]
  from t1 t2 t3 show ?thesis
    by (simp only: e1 e2 e3)
qed

text \<open>The empty tag format is not formatted: the tag is \<open>v\<close> and the new version.\<close>

lemma finalTagName_empty_format:
  "finalTagName [] ''2.0.0'' (Some \<lparr>major = 2, minor = 0, patch = 0, pre = [], metadata = []\<rparr>)
   = Some ''v2.0.0''"
  by (simp add: finalTagName_def)

section \<open>The two patterns as languages\<close>

lemma matchBreaking_complete:
  "(b = [] \<or> b = ''!'') \<Longrightarrow> LF \<notin> set r \<Longrightarrow> matchBreaking (b @ '': '' @ r) \<noteq> None"
  by (auto simp: matchBreaking_def matchColon_def matchSubject_def)

lemma matchScope_complete:
  assumes "g = [] \<or> g = ''('' \<or> (\<exists>sc. g = ''('' @ sc @ '')'' \<and> (\<forall>c \<in> set sc. scopeChar c))"
    and "b = [] \<or> b = ''!''" and "LF \<notin> set r"
  shows "matchScope (g @ b @ '': '' @ r) \<noteq> None"
proof -
  note mb = matchBreaking_complete [OF assms(2,3)]
  from assms(1) consider (none) "g = []" | (lone) "g = ''(''"
    | (closed) sc where "g = ''('' @ sc @ '')''" "\<forall>c \<in> set sc. scopeChar c"
    by blast
  then show ?thesis
  proof cases
    case none
    with mb show ?thesis
      by (auto simp: matchScope_def split: option.splits)
  next
    case lone
    with mb show ?thesis
      by (auto simp: matchScope_def split: option.splits)
  next
    case closed
    have "takeWhile scopeChar (sc @ CHR '')'' # b @ '': '' @ r) = sc"
      using closed(2) by (simp add: takeWhile_append2 scopeChar_def)
    moreover have "dropWhile scopeChar (sc @ CHR '')'' # b @ '': '' @ r) = CHR '')'' # b @ '': '' @ r"
      using closed(2) by (simp add: dropWhile_append2 scopeChar_def)
    ultimately have "matchClosedScope (g @ b @ '': '' @ r) \<noteq> None"
      using mb closed(1) by (auto simp: matchClosedScope_def Let_def split: option.splits)
    then show ?thesis
      by (auto simp: matchScope_def split: option.splits)
  qed
qed

lemma matchTypes_complete:
  "t \<in> set ts \<Longrightarrow> matchScope s \<noteq> None \<Longrightarrow> matchTypes ts (t @ s) \<noteq> None"
  by (induction ts) (auto split: option.splits)

text \<open>
  With the lemma \<open>commitPattern_Some\<close>: a text matches the commit pattern exactly when it
  is a type, then nothing, a lone \<open>(\<close> or a scope in parentheses, then the \<open>!\<close> or nothing,
  then a colon, a space and a subject without line feed.
\<close>

lemma commitPattern_complete:
  assumes "t \<in> set commitTypes"
    and "g = [] \<or> g = ''('' \<or> (\<exists>sc. g = ''('' @ sc @ '')'' \<and> (\<forall>c \<in> set sc. scopeChar c))"
    and "b = [] \<or> b = ''!''" and "LF \<notin> set r"
  shows "commitPattern (t @ g @ b @ '': '' @ r) \<noteq> None"
  unfolding commitPattern_def
  using assms(1) matchScope_complete [OF assms(2-4)] by (rule matchTypes_complete)

lemma digitRun_Some:
  "digitRun s = Some (d, r) \<Longrightarrow> s = d @ r \<and> d \<noteq> [] \<and> (\<forall>c \<in> set d. isDigit c)"
  by (auto simp: digitRun_def split: if_splits dest: set_takeWhileD)

lemma literal_Some: "literal p s = Some r \<Longrightarrow> s = p @ r"
  by (auto simp: literal_def prefix_def split: if_splits)

lemma digitRun_run:
  "d \<noteq> [] \<Longrightarrow> \<forall>c \<in> set d. isDigit c \<Longrightarrow> \<not> isDigit x \<Longrightarrow>
   digitRun (d @ x # r) = Some (d, x # r)"
  by (simp add: digitRun_def takeWhile_append2 dropWhile_append2)

lemma literal_append: "literal p (p @ r) = Some r"
  by (simp add: literal_def)

text \<open>
  A tag matches the pattern of the branch exactly when it ends in \<open>v\<close>, three runs of
  digits separated by dots, a hyphen, the sanitized branch, a dot and a run of digits; the
  submatch is the last run.
\<close>

lemma branchPreReleaseRegex_Some:
  assumes "branchPreReleaseRegex sb tag = Some n"
  shows "\<exists>p d1 d2 d3. tag = p @ ''v'' @ d1 @ ''.'' @ d2 @ ''.'' @ d3 @ ''-'' @ sb @ ''.'' @ n
           \<and> d1 \<noteq> [] \<and> d2 \<noteq> [] \<and> d3 \<noteq> [] \<and> n \<noteq> []
           \<and> (\<forall>c \<in> set (d1 @ d2 @ d3 @ n). isDigit c)"
proof -
  from assms obtain num r1 r2 r3 r4 d3 r5 r6 d2 r7 r8 d1 r9 r10 where
    a: "digitRun (rev tag) = Some (num, r1)" "literal ''.'' r1 = Some r2"
       "literal (rev sb) r2 = Some r3" "literal ''-'' r3 = Some r4"
       "digitRun r4 = Some (d3, r5)" "literal ''.'' r5 = Some r6"
       "digitRun r6 = Some (d2, r7)" "literal ''.'' r7 = Some r8"
       "digitRun r8 = Some (d1, r9)" "literal ''v'' r9 = Some r10" and n: "n = rev num"
    unfolding branchPreReleaseRegex_def
    by (auto simp: bind_eq_Some_conv)
  from a have "rev tag = num @ ''.'' @ rev sb @ ''-'' @ d3 @ ''.'' @ d2 @ ''.'' @ d1 @ ''v'' @ r10"
    by (auto dest!: digitRun_Some literal_Some)
  then have "rev (rev tag)
      = rev (num @ ''.'' @ rev sb @ ''-'' @ d3 @ ''.'' @ d2 @ ''.'' @ d1 @ ''v'' @ r10)"
    by (rule arg_cong)
  then have "tag = rev r10 @ ''v'' @ rev d1 @ ''.'' @ rev d2 @ ''.'' @ rev d3 @ ''-'' @ sb
      @ ''.'' @ n"
    using n by simp
  moreover from a(1,5,7,9) n
  have "rev d1 \<noteq> [] \<and> rev d2 \<noteq> [] \<and> rev d3 \<noteq> [] \<and> n \<noteq> []
      \<and> (\<forall>c \<in> set (rev d1 @ rev d2 @ rev d3 @ n). isDigit c)"
    by (auto dest!: digitRun_Some)
  ultimately show ?thesis by blast
qed

lemma branchPreReleaseRegex_complete:
  assumes "d1 \<noteq> []" "d2 \<noteq> []" "d3 \<noteq> []" "n \<noteq> []"
    and "\<forall>c \<in> set (d1 @ d2 @ d3 @ n). isDigit c"
  shows "branchPreReleaseRegex sb (p @ ''v'' @ d1 @ ''.'' @ d2 @ ''.'' @ d3 @ ''-'' @ sb @ ''.'' @ n)
         = Some n"
proof -
  have nd: "\<not> isDigit CHR ''.''" "\<not> isDigit CHR ''v''"
    by (simp_all add: isDigit_def)
  have r: "rev (p @ ''v'' @ d1 @ ''.'' @ d2 @ ''.'' @ d3 @ ''-'' @ sb @ ''.'' @ n)
      = rev n @ CHR ''.'' # (rev sb @ CHR ''-'' # (rev d3 @ CHR ''.'' # (rev d2 @ CHR ''.'' #
          (rev d1 @ CHR ''v'' # rev p))))"
    by simp
  have l: "literal [c] (c # s) = Some s" for c :: char and s
    by (simp add: literal_def)
  from assms have d: "rev n \<noteq> []" "\<forall>c \<in> set (rev n). isDigit c"
    "rev d3 \<noteq> []" "\<forall>c \<in> set (rev d3). isDigit c"
    "rev d2 \<noteq> []" "\<forall>c \<in> set (rev d2). isDigit c"
    "rev d1 \<noteq> []" "\<forall>c \<in> set (rev d1). isDigit c"
    by simp_all
  show ?thesis
    unfolding branchPreReleaseRegex_def r
    by (simp only: digitRun_run [OF d(1,2) nd(1)] digitRun_run [OF d(3,4) nd(1)]
        digitRun_run [OF d(5,6) nd(1)] digitRun_run [OF d(7,8) nd(2)]
        l literal_append Option.bind.simps prod.case rev_rev_ident)
qed

text \<open>
  The pre-release regime when a tag of the branch was found: the bump is applied to the
  version of that tag as the library applies it, and the counter is the highest one plus
  one, in \<open>int\<close> arithmetic. For the tag of the example a minor bump gives
  \<open>1.5.0-feature-X.1\<close>.
\<close>

lemma prerelease_increment:
  assumes "scanTags NewVersion (sanitizedBranch branch) (None, - 1) tags = (Some v, n)"
    and "validatePrerelease (sanitizedBranch branch @ ''.'' @ FormatInt (wrap64 (n + 1)))"
  shows "calculateNewVersion NewVersion validatePrerelease (Some tags) vTags current bumpType
           branch True
         = String
             ((if bumpType = ''major'' then IncMajor v
               else if bumpType = ''minor'' then IncMinor v
               else if bumpType = ''patch'' then IncPatch v
               else \<lparr>major = major v, minor = minor v, patch = patch v, pre = [],
                      metadata = []\<rparr>)
              \<lparr>pre := sanitizedBranch branch @ ''.'' @ FormatInt (wrap64 (n + 1))\<rparr>)"
  using assms by (simp add: calculateNewVersion_def SetPrerelease_def Let_def)

lemma prerelease_minor_bump:
  "calculateNewVersion
     (\<lambda>s. if s = ''1.4.0-feature-X.0''
          then Some \<lparr>major = 1, minor = 4, patch = 0, pre = ''feature-X.0'', metadata = []\<rparr>
          else None)
     (\<lambda>p. True) (Some [''v1.4.0-feature-X.0'']) (Some [])
     \<lparr>major = 1, minor = 4, patch = 0, pre = ''feature-X.0'', metadata = []\<rparr>
     ''minor'' ''feature/X'' True
   = ''1.5.0-feature-X.1''"
  by (simp add: calculateNewVersion_def version_defs FormatUint.simps tag_defs)

end
